theory Spec2Isabelle
  imports Complex_Main "HOL-Library.Sublist"
begin

section \<open>Strings and values of the page script\<close>

text \<open>
  The script \<^verbatim>\<open>assets/js/diagnostico.js\<close> works on JavaScript strings. A string is
  modelled as a \<^typ>\<open>string\<close>, one \<^typ>\<open>char\<close> for one code unit below 256; every
  pattern of the script is ASCII. In that range the line terminators are line feed and
  carriage return, and the white space of \<^verbatim>\<open>\s\<close> and \<^verbatim>\<open>trim\<close> is the seven
  characters of \<open>is_space\<close>.
\<close>

definition nl :: char where
  "nl = CHR 0x0A"

definition cr :: char where
  "cr = CHR 0x0D"

definition dquote :: char where
  "dquote = CHR 0x22"

definition squote :: char where
  "squote = CHR 0x27"

definition is_line_terminator :: "char \<Rightarrow> bool" where
  "is_line_terminator c = (c = nl \<or> c = cr)"

definition is_space :: "char \<Rightarrow> bool" where
  "is_space c =
     (c = CHR 0x09 \<or> c = CHR 0x0A \<or> c = CHR 0x0B \<or> c = CHR 0x0C \<or> c = CHR 0x0D \<or>
      c = CHR 0x20 \<or> c = CHR 0xA0)"

definition is_digit :: "char \<Rightarrow> bool" where
  "is_digit c = (c \<in> set ''0123456789'')"

text \<open>\<^verbatim>\<open>s.includes( sub )\<close>: \<open>sub\<close> occurs in \<open>s\<close> at some position.\<close>

fun includes_str :: "string \<Rightarrow> string \<Rightarrow> bool" where
  "includes_str [] sub = prefix sub []"
| "includes_str (c # cs) sub = (prefix sub (c # cs) \<or> includes_str cs sub)"

text \<open>\<^verbatim>\<open>s.trim()\<close> removes white space at both ends.\<close>

definition trim :: "string \<Rightarrow> string" where
  "trim s = rev (dropWhile is_space (rev (dropWhile is_space s)))"

text \<open>
  The case-insensitive flag of a regular expression without the unicode flag compares
  upper-cased code units, and never maps a code unit of 128 or more to an ASCII one: on
  ASCII patterns it is the folding of the letters a to z.
\<close>

definition to_upper :: "char \<Rightarrow> char" where
  "to_upper c =
     (case map_of (zip ''abcdefghijklmnopqrstuvwxyz'' ''ABCDEFGHIJKLMNOPQRSTUVWXYZ'') c of
        Some u \<Rightarrow> u
      | None \<Rightarrow> c)"

definition includes_ci :: "string \<Rightarrow> string \<Rightarrow> bool" where
  "includes_ci s pat = includes_str (map to_upper s) (map to_upper pat)"

text \<open>
  JavaScript values, as far as the script meets them: the values a parsed JSON document
  holds, and \<^verbatim>\<open>undefined\<close>. A number is a rational (JSON carries neither NaN nor an
  infinity). An object is its list of properties, in insertion order.
\<close>

datatype jsval =
    Undefined
  | Null
  | Bool bool
  | Num rat
  | Str string
  | Arr "jsval list"
  | Obj "(string \<times> jsval) list"

type_synonym js_object = "(string \<times> jsval) list"

datatype js_error = TypeError | SyntaxError | FetchError

text \<open>The truth value a condition or \<^verbatim>\<open>||\<close> sees.\<close>

fun truthy :: "jsval \<Rightarrow> bool" where
  "truthy Undefined = False"
| "truthy Null = False"
| "truthy (Bool b) = b"
| "truthy (Num n) = (n \<noteq> 0)"
| "truthy (Str s) = (s \<noteq> [])"
| "truthy (Arr _) = True"
| "truthy (Obj _) = True"

text \<open>\<^verbatim>\<open>v || 'Unknown'\<close>\<close>

definition or_unknown :: "jsval \<Rightarrow> jsval" where
  "or_unknown v = (if truthy v then v else Str ''Unknown'')"

text \<open>
  \<^verbatim>\<open>o.k\<close> on an object of the script: the property, or \<^verbatim>\<open>undefined\<close> when the
  object has none of that name. \<^verbatim>\<open>o.k = v\<close> overwrites the property in place or adds
  it at the end.
\<close>

definition get_prop :: "js_object \<Rightarrow> string \<Rightarrow> jsval" where
  "get_prop obj k = (case map_of obj k of None \<Rightarrow> Undefined | Some v \<Rightarrow> v)"

fun set_prop :: "js_object \<Rightarrow> string \<Rightarrow> jsval \<Rightarrow> js_object" where
  "set_prop [] k v = [(k, v)]"
| "set_prop ((k', v') # rest) k v =
     (if k' = k then (k, v) # rest else (k', v') # set_prop rest k v)"

text \<open>
  \<^verbatim>\<open>data.k\<close> on a parsed JSON value, for the property names the script reads (none of
  them a property of a string, number, boolean or array): a TypeError on \<^verbatim>\<open>null\<close> and
  \<^verbatim>\<open>undefined\<close>, the property of an object, \<^verbatim>\<open>undefined\<close> otherwise.
\<close>

fun member_of :: "jsval \<Rightarrow> string \<Rightarrow> js_error + jsval" where
  "member_of Undefined k = Inl TypeError"
| "member_of Null k = Inl TypeError"
| "member_of (Obj ps) k = Inr (get_prop ps k)"
| "member_of _ k = Inr Undefined"

section \<open>Theme manager\<close>

text \<open>
  The part of the page the theme functions touch: the \<^verbatim>\<open>data-theme\<close> attribute of the
  document element (\<open>None\<close>: not set, \<^verbatim>\<open>getAttribute\<close> returns null), the item
  \<^verbatim>\<open>theme\<close> of the local storage (\<open>None\<close>: no item, \<^verbatim>\<open>getItem\<close> returns null), and
  the text of the element \<^verbatim>\<open>.theme-icon\<close> (\<open>None\<close>: no such element,
  \<^verbatim>\<open>querySelector\<close> returns null). The two glyphs the script writes are the sun and the
  moon emoji.
\<close>

datatype icon = Sun | Moon | OtherText string

record page =
  data_theme :: "string option"
  stored_theme :: "string option"
  theme_icon :: "icon option"

text \<open>
  A function that mutates the page returns the page it leaves and the exception it
  threw, if any: what it wrote before throwing stays written.
\<close>

type_synonym 's outcome = "'s \<times> js_error option"

text \<open>
  \<^verbatim>\<open>
  updateThemeIcon: function( theme ) {
      const icon = document.querySelector( '.theme-icon' );
      icon.textContent = theme === 'dark' ? SUN : MOON;
  }
  \<close>
\<close>

definition updateThemeIcon :: "page \<Rightarrow> string \<Rightarrow> page outcome" where
  "updateThemeIcon p theme =
     (case theme_icon p of
        None \<Rightarrow> (p, Some TypeError)
      | Some _ \<Rightarrow> (p\<lparr>theme_icon := Some (if theme = ''dark'' then Sun else Moon)\<rparr>, None))"

text \<open>
  \<^verbatim>\<open>
  initTheme: function() {
      const savedTheme = localStorage.getItem( 'theme' ) || 'light';
      document.documentElement.setAttribute( 'data-theme', savedTheme );
      this.updateThemeIcon( savedTheme );
  }
  \<close>
\<close>

definition initTheme :: "page \<Rightarrow> page outcome" where
  "initTheme p =
     (let savedTheme = (case stored_theme p of
                          None \<Rightarrow> ''light''
                        | Some s \<Rightarrow> if s = [] then ''light'' else s);
          p1 = p\<lparr>data_theme := Some savedTheme\<rparr>
      in updateThemeIcon p1 savedTheme)"

text \<open>
  \<^verbatim>\<open>
  toggleTheme: function() {
      const currentTheme = document.documentElement.getAttribute( 'data-theme' );
      const newTheme     = currentTheme === 'dark' ? 'light' : 'dark';
      document.documentElement.setAttribute( 'data-theme', newTheme );
      localStorage.setItem( 'theme', newTheme );
      this.updateThemeIcon( newTheme );
  }
  \<close>
\<close>

definition toggleTheme :: "page \<Rightarrow> page outcome" where
  "toggleTheme p =
     (let currentTheme = data_theme p;
          newTheme = (if currentTheme = Some ''dark'' then ''light'' else ''dark'');
          p1 = p\<lparr>data_theme := Some newTheme\<rparr>;
          p2 = p1\<lparr>stored_theme := Some newTheme\<rparr>
      in updateThemeIcon p2 newTheme)"

section \<open>Regular expressions of the browser identification\<close>

text \<open>
  The version patterns are a literal (or one of two literals and a separator), then the
  capture \<^verbatim>\<open>(\d+)\<close>. A pattern is a function from the text at a position to the
  capture, \<open>None\<close> when it does not match there; \<^verbatim>\<open>exec\<close> returns the match at the
  leftmost position that has one.
\<close>

type_synonym pattern = "string \<Rightarrow> string option"

definition digits_here :: pattern where
  "digits_here s = (let d = takeWhile is_digit s in if d = [] then None else Some d)"

definition lit_then :: "string \<Rightarrow> pattern \<Rightarrow> pattern" where
  "lit_then lit k s = (if prefix lit s then k (drop (length lit) s) else None)"

definition class_then :: "(char \<Rightarrow> bool) \<Rightarrow> pattern \<Rightarrow> pattern" where
  "class_then cls k s = (case s of [] \<Rightarrow> None | c # cs \<Rightarrow> if cls c then k cs else None)"

definition alt :: "pattern \<Rightarrow> pattern \<Rightarrow> pattern" where
  "alt k1 k2 s = (case k1 s of Some d \<Rightarrow> Some d | None \<Rightarrow> k2 s)"

fun exec :: "pattern \<Rightarrow> string \<Rightarrow> string option" where
  "exec m [] = m []"
| "exec m (c # cs) = (case m (c # cs) of Some d \<Rightarrow> Some d | None \<Rightarrow> exec m cs)"

text \<open>\<^verbatim>\<open>match?.[1] || 'Unknown'\<close>\<close>

definition capture_or_unknown :: "string option \<Rightarrow> string" where
  "capture_or_unknown m =
     (case m of None \<Rightarrow> ''Unknown'' | Some d \<Rightarrow> if d = [] then ''Unknown'' else d)"

section \<open>Info collector: browser and system identification\<close>

text \<open>
  What the two functions read of \<^verbatim>\<open>navigator\<close>. \<^verbatim>\<open>languages\<close>,
  \<^verbatim>\<open>doNotTrack\<close>, \<^verbatim>\<open>userAgentData?.platform\<close>, \<^verbatim>\<open>deviceMemory\<close> and
  \<^verbatim>\<open>hardwareConcurrency\<close> may be missing (\<open>None\<close>).
\<close>

record navigator =
  nav_userAgent :: string
  nav_language :: string
  nav_languages :: "string list option"
  nav_cookieEnabled :: bool
  nav_onLine :: bool
  nav_doNotTrack :: "string option"
  nav_uaData_platform :: "string option"
  nav_deviceMemory :: "rat option"
  nav_hardwareConcurrency :: "nat option"

record browser_info =
  userAgent :: string
  language :: string
  languages :: string
  cookiesEnabled :: bool
  onLine :: bool
  doNotTrack :: string
  name :: string
  version :: string

text \<open>\<^verbatim>\<open>xs.join( ', ' )\<close>\<close>

fun join :: "string \<Rightarrow> string list \<Rightarrow> string" where
  "join sep [] = []"
| "join sep [x] = x"
| "join sep (x # y # ys) = x @ sep @ join sep (y # ys)"

text \<open>
  The five version patterns: \<^verbatim>\<open>/Chrome\/(\d+)/\<close>, \<^verbatim>\<open>/Version\/(\d+)/\<close>,
  \<^verbatim>\<open>/Firefox\/(\d+)/\<close>, \<^verbatim>\<open>/Edg\/(\d+)/\<close> and \<^verbatim>\<open>/(?:OPR|Opera)[\/\s](\d+)/\<close>.
\<close>

definition chrome_re :: pattern where
  "chrome_re = lit_then ''Chrome/'' digits_here"

definition safari_re :: pattern where
  "safari_re = lit_then ''Version/'' digits_here"

definition firefox_re :: pattern where
  "firefox_re = lit_then ''Firefox/'' digits_here"

definition edge_re :: pattern where
  "edge_re = lit_then ''Edg/'' digits_here"

definition opera_sep :: "char \<Rightarrow> bool" where
  "opera_sep c = (c = CHR ''/'' \<or> is_space c)"

definition opera_re :: pattern where
  "opera_re =
     alt (lit_then ''OPR'' (class_then opera_sep digits_here))
         (lit_then ''Opera'' (class_then opera_sep digits_here))"

text \<open>
  \<^verbatim>\<open>getBrowserInfo\<close> (lines 65 to 106): the record of the navigator's fields, then the
  chain of tests on the user agent that sets \<open>name\<close> and \<open>version\<close>, both
  \<^verbatim>\<open>'Unknown'\<close> when no test holds.
\<close>

definition browser_name_version :: "string \<Rightarrow> string \<times> string" where
  "browser_name_version ua =
     (if includes_str ua ''Chrome'' \<and> \<not> includes_str ua ''Edg'' \<and> \<not> includes_str ua ''OPR''
      then (''Chrome'', capture_or_unknown (exec chrome_re ua))
      else if includes_str ua ''Safari'' \<and> \<not> includes_str ua ''Chrome''
      then (''Safari'', capture_or_unknown (exec safari_re ua))
      else if includes_str ua ''Firefox''
      then (''Firefox'', capture_or_unknown (exec firefox_re ua))
      else if includes_str ua ''Edg''
      then (''Edge'', capture_or_unknown (exec edge_re ua))
      else if includes_str ua ''OPR'' \<or> includes_str ua ''Opera''
      then (''Opera'', capture_or_unknown (exec opera_re ua))
      else (''Unknown'', ''Unknown''))"

definition getBrowserInfo :: "navigator \<Rightarrow> browser_info" where
  "getBrowserInfo nav =
     (let ua = nav_userAgent nav;
          (browserName, browserVersion) = browser_name_version ua
      in \<lparr> userAgent = ua,
           language = nav_language nav,
           languages = (case nav_languages nav of
                          Some ls \<Rightarrow> join '', '' ls
                        | None \<Rightarrow> nav_language nav),
           cookiesEnabled = nav_cookieEnabled nav,
           onLine = nav_onLine nav,
           doNotTrack = (case nav_doNotTrack nav of
                           None \<Rightarrow> ''Not specified''
                         | Some d \<Rightarrow> if d = [] then ''Not specified'' else d),
           name = browserName,
           version = browserVersion \<rparr>)"

record system_info =
  platform :: string
  os :: string
  mobile :: bool
  cores :: jsval
  memory :: string

text \<open>
  \<^verbatim>\<open>getSystemInfo\<close> (lines 111 to 158). The operating system and the first value of
  the platform come from substrings of the user agent; \<^verbatim>\<open>userAgentData.platform\<close>
  overrides the platform when it is a non-empty string. How JavaScript prints a number
  (\<^verbatim>\<open>deviceMemory + ' GB'\<close>) is the parameter \<open>num_text\<close>. The annotation appended
  from 8 GB on is Spanish text with accented letters, the parameter \<open>cap_note\<close>.
\<close>

definition os_platform :: "string \<Rightarrow> string \<times> string" where
  "os_platform ua =
     (if includes_str ua ''Win''
      then ((if includes_str ua ''Windows NT 10.0'' \<or> includes_str ua ''Windows NT 11.0''
             then ''Windows 10/11'' else ''Windows''), ''Windows'')
      else if includes_str ua ''Mac'' then (''macOS'', ''macOS'')
      else if includes_str ua ''Linux'' then (''Linux'', ''Linux'')
      else if includes_str ua ''Android'' then (''Android'', ''Android'')
      else if includes_str ua ''iOS'' \<or> includes_str ua ''iPhone'' \<or> includes_str ua ''iPad''
              \<or> includes_str ua ''iPod''
      then (''iOS'', ''iOS'')
      else (''Unknown'', ''Unknown''))"

definition mobile_re :: "string \<Rightarrow> bool" where
  "mobile_re ua =
     (includes_ci ua ''Mobile'' \<or> includes_ci ua ''Android'' \<or> includes_ci ua ''iOS'' \<or>
      includes_ci ua ''iPhone'' \<or> includes_ci ua ''iPad'' \<or> includes_ci ua ''iPod'' \<or>
      includes_ci ua ''BlackBerry'' \<or> includes_ci ua ''IEMobile'' \<or>
      includes_ci ua ''Opera Mini'')"

definition getSystemInfo :: "(rat \<Rightarrow> string) \<Rightarrow> string \<Rightarrow> navigator \<Rightarrow> system_info" where
  "getSystemInfo num_text cap_note nav =
     (let ua = nav_userAgent nav;
          (os0, platform0) = os_platform ua;
          platform1 = (case nav_uaData_platform nav of
                         None \<Rightarrow> platform0
                       | Some pf \<Rightarrow> if pf = [] then platform0 else pf);
          memoryText = (case nav_deviceMemory nav of
                          None \<Rightarrow> ''Unknown''
                        | Some m \<Rightarrow>
                            if m = 0 then ''Unknown''
                            else if m \<ge> 8 then num_text m @ '' GB'' @ cap_note
                            else num_text m @ '' GB'')
      in \<lparr> platform = platform1,
           os = os0,
           mobile = mobile_re ua,
           cores = (case nav_hardwareConcurrency nav of
                      None \<Rightarrow> Str ''Unknown''
                    | Some n \<Rightarrow> if n = 0 then Str ''Unknown'' else Num (of_nat n)),
           memory = memoryText \<rparr>)"

section \<open>Network lookup\<close>

text \<open>
  What \<^verbatim>\<open>await fetch( url )\<close> followed by \<^verbatim>\<open>await response.json()\<close> comes to: the
  request is rejected, the body is not JSON, or the body parses to a value.
\<close>

datatype fetch_json = Rejected | NotJson | Parsed jsval

text \<open>\<^verbatim>\<open>navigator.connection\<close>, with the four properties the script reads.\<close>

record connection =
  conn_type :: "string option"
  conn_effectiveType :: "string option"
  conn_downlink :: "rat option"
  conn_rtt :: "rat option"

definition str_or_unknown :: "string option \<Rightarrow> jsval" where
  "str_or_unknown s = (case s of None \<Rightarrow> Str ''Unknown'' | Some t \<Rightarrow> if t = [] then Str ''Unknown'' else Str t)"

definition num_or_unknown :: "(rat \<Rightarrow> string) \<Rightarrow> string \<Rightarrow> rat option \<Rightarrow> jsval" where
  "num_or_unknown num_text unit n =
     (case n of
        None \<Rightarrow> Str ''Unknown''
      | Some x \<Rightarrow> if x = 0 then Str ''Unknown'' else Str (num_text x @ unit))"

text \<open>
  One assignment of a try block, \<^verbatim>\<open>info.field = data.key || 'Unknown'\<close>, on the outcome
  of the statements before it: skipped when one of them threw.
\<close>

definition assign_or_unknown :: "jsval \<Rightarrow> string \<Rightarrow> string \<Rightarrow> js_object outcome \<Rightarrow> js_object outcome" where
  "assign_or_unknown data key field st =
     (case st of
        (info, Some e) \<Rightarrow> (info, Some e)
      | (info, None) \<Rightarrow>
          (case member_of data key of
             Inl e \<Rightarrow> (info, Some e)
           | Inr v \<Rightarrow> (set_prop info field (or_unknown v), None)))"

text \<open>The outer try block (lines 194 to 204), on the primary endpoint's answer.\<close>

definition primary_block :: "fetch_json \<Rightarrow> js_object \<Rightarrow> js_object outcome" where
  "primary_block primary info =
     (case primary of
        Rejected \<Rightarrow> (info, Some FetchError)
      | NotJson \<Rightarrow> (info, Some SyntaxError)
      | Parsed data \<Rightarrow>
          (let s1 = assign_or_unknown data ''ip'' ''ip'' (info, None);
               s2 = assign_or_unknown data ''city'' ''city'' s1;
               s3 = assign_or_unknown data ''region'' ''region'' s2;
               s4 = assign_or_unknown data ''country'' ''country'' s3;
               s5 = assign_or_unknown data ''organization_name'' ''isp'' s4
           in assign_or_unknown data ''timezone'' ''timezone'' s5))"

text \<open>The inner try block (lines 208 to 211), on the secondary endpoint's answer.\<close>

definition secondary_block :: "fetch_json \<Rightarrow> js_object \<Rightarrow> js_object outcome" where
  "secondary_block secondary info =
     (case secondary of
        Rejected \<Rightarrow> (info, Some FetchError)
      | NotJson \<Rightarrow> (info, Some SyntaxError)
      | Parsed ipData \<Rightarrow> assign_or_unknown ipData ''ip'' ''ip'' (info, None))"

text \<open>
  \<^verbatim>\<open>getNetworkInfo\<close> (lines 177 to 218). The object starts with the four connection
  properties at \<^verbatim>\<open>'Unknown'\<close>; the connection, when the navigator has one, overwrites
  them; the primary block runs; its catch clause runs the secondary block, whose catch
  clause only logs. The result is \<open>Inr\<close> of the object returned, \<open>Inl\<close> of an exception
  that leaves the function.
\<close>

definition getNetworkInfo ::
  "(rat \<Rightarrow> string) \<Rightarrow> connection option \<Rightarrow> fetch_json \<Rightarrow> fetch_json \<Rightarrow> js_error + js_object" where
  "getNetworkInfo num_text conn primary secondary =
     (let info0 = [(''connection'', Str ''Unknown''), (''effectiveType'', Str ''Unknown''),
                   (''downlink'', Str ''Unknown''), (''rtt'', Str ''Unknown'')];
          info1 = (case conn of
                     None \<Rightarrow> info0
                   | Some c \<Rightarrow>
                       set_prop
                         (set_prop
                            (set_prop
                               (set_prop info0 ''connection'' (str_or_unknown (conn_type c)))
                               ''effectiveType'' (str_or_unknown (conn_effectiveType c)))
                            ''downlink'' (num_or_unknown num_text '' Mbps'' (conn_downlink c)))
                         ''rtt'' (num_or_unknown num_text '' ms'' (conn_rtt c)))
      in case primary_block primary info1 of
           (info2, None) \<Rightarrow> Inr info2
         | (info2, Some error) \<Rightarrow>
             (case secondary_block secondary info2 of
                (info3, None) \<Rightarrow> Inr info3
              | (info3, Some ipError) \<Rightarrow> Inr info3))"

section \<open>escapeHtml\<close>

text \<open>
  \<^verbatim>\<open>
  escapeHtml: function( text ) {
      const map = { '&': '&amp;', '<': '&lt;', '>': '&gt;', '"': '&quot;', "'": '&#039;' };
      return text.replace( /[&<>"']/g, ( m ) => map[m] );
  }
  \<close>
  The object literal is an association list and the character class a predicate. A global
  replace of a one-character class visits the characters from left to right and puts what
  the callback returns in the place of each member; a callback returning
  \<^verbatim>\<open>undefined\<close> would insert the text \<^verbatim>\<open>undefined\<close>.
\<close>

definition entity_map :: "(char \<times> string) list" where
  "entity_map =
     [(CHR ''&'', ''&amp;''), (CHR ''<'', ''&lt;''), (CHR ''>'', ''&gt;''),
      (dquote, ''&quot;''), (squote, ''&#039;'')]"

definition entity_class :: "char \<Rightarrow> bool" where
  "entity_class c =
     (c = CHR ''&'' \<or> c = CHR ''<'' \<or> c = CHR ''>'' \<or> c = dquote \<or> c = squote)"

definition entity_lookup :: "char \<Rightarrow> string" where
  "entity_lookup m = (case map_of entity_map m of Some r \<Rightarrow> r | None \<Rightarrow> ''undefined'')"

fun replace_class :: "(char \<Rightarrow> bool) \<Rightarrow> (char \<Rightarrow> string) \<Rightarrow> string \<Rightarrow> string" where
  "replace_class cls f [] = []"
| "replace_class cls f (c # cs) =
     (if cls c then f c @ replace_class cls f cs else c # replace_class cls f cs)"

definition escapeHtml :: "string \<Rightarrow> string" where
  "escapeHtml text = replace_class entity_class entity_lookup text"

section \<open>Markdown renderer\<close>

text \<open>
  A rule of the renderer is a regular expression and a replacement. Its model is a
  matcher: on the text at a position it returns the replacement and the text after the
  match, \<open>None\<close> when the expression does not match at that position. No expression of
  the script matches the empty string, so the text after a match is shorter; the drivers
  test this, which makes them total for every matcher.

  \<open>replace_global\<close> is \<^verbatim>\<open>replace\<close> with the flag \<^verbatim>\<open>g\<close>: matches are taken from left
  to right, each search starting where the last match ended. \<open>replace_first\<close> is
  \<^verbatim>\<open>replace\<close> without it: the leftmost match only. \<open>replace_lines\<close> is the global
  replace of an expression anchored by \<^verbatim>\<open>^\<close> under the flag \<^verbatim>\<open>m\<close>: a match can start
  only at the start of the text or after a line terminator, so the driver carries the
  character before the position.
\<close>

type_synonym matcher = "string \<Rightarrow> (string \<times> string) option"

fun replace_global :: "matcher \<Rightarrow> string \<Rightarrow> string" where
  "replace_global m [] = []"
| "replace_global m (c # cs) =
     (case m (c # cs) of
        None \<Rightarrow> c # replace_global m cs
      | Some (out, rest) \<Rightarrow>
          if length rest < length (c # cs) then out @ replace_global m rest
          else c # replace_global m cs)"

fun replace_first :: "matcher \<Rightarrow> string \<Rightarrow> string" where
  "replace_first m [] = []"
| "replace_first m (c # cs) =
     (case m (c # cs) of
        None \<Rightarrow> c # replace_first m cs
      | Some (out, rest) \<Rightarrow> out @ rest)"

definition at_line_start :: "char option \<Rightarrow> bool" where
  "at_line_start prev = (case prev of None \<Rightarrow> True | Some p \<Rightarrow> is_line_terminator p)"

fun replace_lines :: "matcher \<Rightarrow> char option \<Rightarrow> string \<Rightarrow> string" where
  "replace_lines m prev [] = []"
| "replace_lines m prev (c # cs) =
     (case (if at_line_start prev then m (c # cs) else None) of
        None \<Rightarrow> c # replace_lines m (Some c) cs
      | Some (out, rest) \<Rightarrow>
          if length rest < length (c # cs)
          then out @ replace_lines m (Some (last (take (length (c # cs) - length rest) (c # cs)))) rest
          else c # replace_lines m (Some c) cs)"

text \<open>
  \<^verbatim>\<open>X*?D\<close>: the shortest run of characters of the class \<open>ok\<close> that the literal \<open>d\<close>
  follows; the run and the text after \<open>d\<close>. \<^verbatim>\<open>X*D\<close>: the longest such run.
\<close>

fun lazy_until :: "(char \<Rightarrow> bool) \<Rightarrow> string \<Rightarrow> string \<Rightarrow> (string \<times> string) option" where
  "lazy_until ok d [] = (if prefix d [] then Some ([], []) else None)"
| "lazy_until ok d (c # cs) =
     (if prefix d (c # cs) then Some ([], drop (length d) (c # cs))
      else if ok c then
        (case lazy_until ok d cs of None \<Rightarrow> None | Some (run, rest) \<Rightarrow> Some (c # run, rest))
      else None)"

fun greedy_until :: "(char \<Rightarrow> bool) \<Rightarrow> string \<Rightarrow> string \<Rightarrow> (string \<times> string) option" where
  "greedy_until ok d [] = (if prefix d [] then Some ([], []) else None)"
| "greedy_until ok d (c # cs) =
     (case (if ok c then greedy_until ok d cs else None) of
        Some (run, rest) \<Rightarrow> Some (c # run, rest)
      | None \<Rightarrow> if prefix d (c # cs) then Some ([], drop (length d) (c # cs)) else None)"

text \<open>
  \<^verbatim>\<open>/^### (.*$)/gim\<close> with \<^verbatim>\<open>'<h3>$1</h3>'\<close>, and the four rules of the same shape:
  the marker, then the rest of the line (the dot matches no line terminator, and
  \<^verbatim>\<open>$\<close> holds where the line ends).
\<close>

definition line_rule :: "string \<Rightarrow> string \<Rightarrow> string \<Rightarrow> matcher" where
  "line_rule marker opn cls s =
     (if prefix marker s
      then (let rest = drop (length marker) s
            in Some (opn @ takeWhile (\<lambda>c. \<not> is_line_terminator c) rest @ cls,
                     dropWhile (\<lambda>c. \<not> is_line_terminator c) rest))
      else None)"

text \<open>\<^verbatim>\<open>/\*\*(.*?)\*\*/g\<close> with \<^verbatim>\<open>'<strong>$1</strong>'\<close>\<close>

definition bold_rule :: matcher where
  "bold_rule s =
     (if prefix ''**'' s
      then (case lazy_until (\<lambda>c. \<not> is_line_terminator c) ''**'' (drop 2 s) of
              None \<Rightarrow> None
            | Some (cap, rest) \<Rightarrow> Some (''<strong>'' @ cap @ ''</strong>'', rest))
      else None)"

text \<open>
  \<^verbatim>\<open>
  html.replace( /```[\s\S]*?```/g, ( match ) => {
      const code = match.replace( /```/g, '' ).trim();
      return `<pre><code>${this.escapeHtml( code )}</code></pre>`;
  } );
  \<close>
\<close>

definition fence_literal :: matcher where
  "fence_literal s = (if prefix ''```'' s then Some ([], drop 3 s) else None)"

definition code_block_rule :: matcher where
  "code_block_rule s =
     (if prefix ''```'' s
      then (case lazy_until (\<lambda>c. True) ''```'' (drop 3 s) of
              None \<Rightarrow> None
            | Some (body, rest) \<Rightarrow>
                (let matched = ''```'' @ body @ ''```'';
                     code = trim (replace_global fence_literal matched)
                 in Some (''<pre><code>'' @ escapeHtml code @ ''</code></pre>'', rest)))
      else None)"

text \<open>
  \<^verbatim>\<open>/`([^`]+)`/g\<close> with \<^verbatim>\<open>'<code>$1</code>'\<close>: a backquote, one or more characters
  other than a backquote (line terminators among them), a backquote.
\<close>

definition inline_code_rule :: matcher where
  "inline_code_rule s =
     (case s of
        [] \<Rightarrow> None
      | c # cs \<Rightarrow>
          if c = CHR 0x60
          then (let cap = takeWhile (\<lambda>x. x \<noteq> CHR 0x60) cs;
                    rest = dropWhile (\<lambda>x. x \<noteq> CHR 0x60) cs
                in if cap \<noteq> [] \<and> rest \<noteq> [] then Some (''<code>'' @ cap @ ''</code>'', tl rest)
                   else None)
          else None)"

text \<open>
  \<^verbatim>\<open>/(<li>.*<\/li>)/s\<close> with \<^verbatim>\<open>'<ul>$1</ul>'\<close>: under the flag \<^verbatim>\<open>s\<close> the dot matches
  every character, and the star is greedy.
\<close>

definition ul_rule :: matcher where
  "ul_rule s =
     (if prefix ''<li>'' s
      then (case greedy_until (\<lambda>c. True) ''</li>'' (drop 4 s) of
              None \<Rightarrow> None
            | Some (mid, rest) \<Rightarrow> Some (''<ul>'' @ ''<li>'' @ mid @ ''</li>'' @ ''</ul>'', rest))
      else None)"

text \<open>
  \<^verbatim>\<open>html.split( '\n\n' )\<close>: the pieces between the occurrences of two line feeds, taken
  from left to right; \<open>acc\<close> is the piece being read.
\<close>

fun split_blank :: "string \<Rightarrow> string \<Rightarrow> string list" where
  "split_blank acc [] = [acc]"
| "split_blank acc [a] = [acc @ [a]]"
| "split_blank acc (a # b # cs) =
     (if a = nl \<and> b = nl then acc # split_blank [] cs else split_blank (acc @ [a]) (b # cs))"

text \<open>
  \<^verbatim>\<open>
  paragraph => {
      if ( !paragraph.startsWith( '<' ) ) {
          return `<p>${paragraph.replace( /\n/g, '<br>' )}</p>`;
      }
      return paragraph;
  }
  \<close>
\<close>

definition wrap_paragraph :: "string \<Rightarrow> string" where
  "wrap_paragraph paragraph =
     (if \<not> prefix ''<'' paragraph
      then ''<p>'' @ replace_class (\<lambda>c. c = nl) (\<lambda>m. ''<br>'') paragraph @ ''</p>''
      else paragraph)"

definition paragraphs :: "string \<Rightarrow> string" where
  "paragraphs html = join [nl] (map wrap_paragraph (split_blank [] html))"

text \<open>
  \<^verbatim>\<open>parseMarkdown\<close> (lines 413 to 447). The source groups its statements under the
  comments Headers, Bold, Code blocks, Inline code, Lists and Paragraphs; each group is a
  stage here, and \<open>parseMarkdown\<close> runs them in the order of the source.
\<close>

definition headers :: "string \<Rightarrow> string" where
  "headers html =
     replace_lines (line_rule ''# '' ''<h1>'' ''</h1>'') None
       (replace_lines (line_rule ''## '' ''<h2>'' ''</h2>'') None
          (replace_lines (line_rule ''### '' ''<h3>'' ''</h3>'') None html))"

definition bold :: "string \<Rightarrow> string" where
  "bold html = replace_global bold_rule html"

definition code_blocks :: "string \<Rightarrow> string" where
  "code_blocks html = replace_global code_block_rule html"

definition inline_code :: "string \<Rightarrow> string" where
  "inline_code html = replace_global inline_code_rule html"

definition list_items :: "string \<Rightarrow> string" where
  "list_items html =
     replace_lines (line_rule ''- '' ''<li>'' ''</li>'') None
       (replace_lines (line_rule ''* '' ''<li>'' ''</li>'') None html)"

definition lists :: "string \<Rightarrow> string" where
  "lists html = replace_first ul_rule (list_items html)"

definition parseMarkdown :: "string \<Rightarrow> string" where
  "parseMarkdown markdown =
     paragraphs (lists (inline_code (code_blocks (bold (headers markdown)))))"

section \<open>Notions of the specification\<close>

text \<open>
  The definitions of this section are not code of the script: they say in their own
  terms what the specification's sentences speak of, so that the functions above can be
  compared with them.
\<close>

text \<open>A navigator with a given user agent and a page with a given stored theme, for the
  concrete instances.\<close>

definition navigator_of :: "string \<Rightarrow> navigator" where
  "navigator_of ua =
     \<lparr> nav_userAgent = ua, nav_language = ''es-ES'', nav_languages = None,
       nav_cookieEnabled = True, nav_onLine = True, nav_doNotTrack = None,
       nav_uaData_platform = None, nav_deviceMemory = None,
       nav_hardwareConcurrency = None \<rparr>"

definition page_of :: "string option \<Rightarrow> string option \<Rightarrow> page" where
  "page_of attr stored =
     \<lparr> data_theme = attr, stored_theme = stored, theme_icon = Some (OtherText []) \<rparr>"

text \<open>The table of entities of the specification.\<close>

definition spec_entity :: "char \<Rightarrow> string" where
  "spec_entity c =
     (if c = CHR ''<'' then ''&lt;''
      else if c = CHR ''>'' then ''&gt;''
      else if c = CHR ''&'' then ''&amp;''
      else if c = dquote then ''&quot;''
      else if c = squote then ''&#039;''
      else [c])"

definition has_reserved :: "string \<Rightarrow> bool" where
  "has_reserved s = (\<exists>c \<in> set s. entity_class c)"

text \<open>
  The priority order of the specification's sentence on overlapping substrings: Chrome,
  then Edge, then Opera, then Firefox, then Safari, each by its substring.
\<close>

definition spec_priority_name :: "string \<Rightarrow> string" where
  "spec_priority_name ua =
     (if includes_str ua ''Chrome'' then ''Chrome''
      else if includes_str ua ''Edg'' then ''Edge''
      else if includes_str ua ''OPR'' \<or> includes_str ua ''Opera'' then ''Opera''
      else if includes_str ua ''Firefox'' then ''Firefox''
      else if includes_str ua ''Safari'' then ''Safari''
      else ''Unknown'')"

text \<open>The name of the first test of a list that holds, \<^verbatim>\<open>'Unknown'\<close> when none does.\<close>

fun first_holding :: "(string \<times> bool) list \<Rightarrow> string" where
  "first_holding [] = ''Unknown''"
| "first_holding ((n, b) # rest) = (if b then n else first_holding rest)"

text \<open>
  Positions and digit runs, by index. \<open>occurrences lit s\<close> are the positions of \<open>s\<close>
  where \<open>lit\<close> stands, in increasing order; \<open>digits_at s i\<close> is the run of digits that
  starts at position \<open>i\<close>.
\<close>

definition occurrences :: "string \<Rightarrow> string \<Rightarrow> nat list" where
  "occurrences lit s = filter (\<lambda>i. take (length lit) (drop i s) = lit) [0..<length s]"

definition digits_at :: "string \<Rightarrow> nat \<Rightarrow> string" where
  "digits_at s i = takeWhile is_digit (drop i s)"

text \<open>The digits that follow the literal, at its first occurrence.\<close>

definition spec_digits_following :: "string \<Rightarrow> string \<Rightarrow> string" where
  "spec_digits_following lit s =
     (case occurrences lit s of [] \<Rightarrow> [] | i # _ \<Rightarrow> digits_at s (i + length lit))"

text \<open>
  The digits that follow the first occurrence of the literal that a digit follows, and
  \<^verbatim>\<open>'Unknown'\<close> when no occurrence is followed by a digit.
\<close>

definition version_following :: "string \<Rightarrow> string \<Rightarrow> string" where
  "version_following lit s =
     (case filter (\<lambda>i. digits_at s (i + length lit) \<noteq> []) (occurrences lit s) of
        [] \<Rightarrow> ''Unknown''
      | i # _ \<Rightarrow> digits_at s (i + length lit))"

text \<open>
  The blocks of a text, delimited by blank lines. No block holds two line feeds in a row
  (\<open>no_blank\<close>), and a block that another follows does not end in a line feed either
  (\<open>plain_block\<close>): two line feeds are taken where they first occur. The last block may
  end in a line feed. \<open>blocks_ok\<close> says this of a list of blocks; every text is the join
  of such a list.
\<close>

fun no_blank :: "string \<Rightarrow> bool" where
  "no_blank [] = True"
| "no_blank [a] = True"
| "no_blank (a # b # cs) = (\<not> (a = nl \<and> b = nl) \<and> no_blank (b # cs))"

fun plain_block :: "string \<Rightarrow> bool" where
  "plain_block [] = True"
| "plain_block [a] = (a \<noteq> nl)"
| "plain_block (a # b # cs) = (\<not> (a = nl \<and> b = nl) \<and> plain_block (b # cs))"

fun blocks_ok :: "string list \<Rightarrow> bool" where
  "blocks_ok [] = False"
| "blocks_ok [b] = no_blank b"
| "blocks_ok (b # c # cs) = (plain_block b \<and> blocks_ok (c # cs))"

text \<open>
  A line: a text without line terminator. \<open>li_line\<close> is what a rule of the shape marker,
  rest of line makes of a line, and \<open>li_item\<close> what the two list rules make of it.
\<close>

definition one_line :: "string \<Rightarrow> bool" where
  "one_line l = list_all (\<lambda>c. \<not> is_line_terminator c) l"

definition li_line :: "string \<Rightarrow> string \<Rightarrow> string \<Rightarrow> string \<Rightarrow> string" where
  "li_line marker opn cls l =
     (if prefix marker l then opn @ drop (length marker) l @ cls else l)"

definition li_item :: "string \<Rightarrow> string" where
  "li_item l =
     (if prefix ''* '' l then ''<li>'' @ drop 2 l @ ''</li>''
      else if prefix ''- '' l then ''<li>'' @ drop 2 l @ ''</li>''
      else l)"

text \<open>
  The lines of a text: each line with the line terminator that ends it (a line feed or a
  carriage return; between the two characters of a carriage return, line feed pair lies
  an empty line), and the last line, which no terminator follows. \<open>text_of\<close> puts a text
  together from its lines, \<open>split_lines\<close> takes it apart, \<open>lines_ok\<close> says that the lines
  hold no terminator and that the terminators are terminators, and \<open>map_lines\<close> changes
  every line but the last and keeps the terminators.
\<close>

fun text_of :: "(string \<times> char) list \<Rightarrow> string \<Rightarrow> string" where
  "text_of [] lst = lst"
| "text_of ((l, t) # segs) lst = l @ t # text_of segs lst"

fun lines_ok :: "(string \<times> char) list \<Rightarrow> string \<Rightarrow> bool" where
  "lines_ok [] lst = one_line lst"
| "lines_ok ((l, t) # segs) lst = (one_line l \<and> is_line_terminator t \<and> lines_ok segs lst)"

fun split_lines :: "string \<Rightarrow> (string \<times> char) list \<times> string" where
  "split_lines [] = ([], [])"
| "split_lines (c # cs) =
     (case split_lines cs of
        (segs, lst) \<Rightarrow>
          if is_line_terminator c then (([], c) # segs, lst)
          else (case segs of
                  [] \<Rightarrow> ([], c # lst)
                | (l, t) # rest \<Rightarrow> ((c # l, t) # rest, lst)))"

definition map_lines :: "(string \<Rightarrow> string) \<Rightarrow> (string \<times> char) list \<Rightarrow> (string \<times> char) list" where
  "map_lines f segs = map (\<lambda>(l, t). (f l, t)) segs"

text \<open>
  Lines that the rules before the list rules leave as they are: none begins with a header
  marker, and the text holds neither two asterisks in a row nor a backquote.
\<close>

definition no_header :: "string \<Rightarrow> bool" where
  "no_header l = (\<not> prefix ''# '' l \<and> \<not> prefix ''## '' l \<and> \<not> prefix ''### '' l)"

definition plain_lines :: "(string \<times> char) list \<Rightarrow> string \<Rightarrow> bool" where
  "plain_lines segs lst =
     (list_all (\<lambda>(l, t). no_header l) segs \<and> no_header lst \<and>
      \<not> includes_str (text_of segs lst) ''**'' \<and> CHR 0x60 \<notin> set (text_of segs lst))"

section \<open>General facts\<close>

lemma prefix_take: "prefix lit s \<longleftrightarrow> take (length lit) s = lit"
proof
  assume "prefix lit s"
  then obtain r where "s = lit @ r" by (auto simp: prefix_def)
  then show "take (length lit) s = lit" by simp
next
  assume "take (length lit) s = lit"
  then have "s = lit @ drop (length lit) s"
    by (metis append_take_drop_id)
  then show "prefix lit s" by (metis prefixI)
qed

lemma prefix_append_long: "length p \<le> length a \<Longrightarrow> prefix p (a @ b) \<longleftrightarrow> prefix p a"
  by (auto simp: prefix_append)

lemma upt_Suc_shift: "[0..<Suc n] = 0 # map Suc [0..<n]"
  by (metis map_Suc_upt upt_conv_Cons zero_less_Suc)

lemma takeWhile_until: "x \<notin> set xs \<Longrightarrow> takeWhile (\<lambda>y. y \<noteq> x) (xs @ x # r) = xs"
  by (induction xs) auto

lemma dropWhile_until: "x \<notin> set xs \<Longrightarrow> dropWhile (\<lambda>y. y \<noteq> x) (xs @ x # r) = x # r"
  by (induction xs) auto

section \<open>Theme toggle\<close>

text \<open>
  C9. The theme toggle is a two-state flip. Starting from a stored theme \<^verbatim>\<open>light\<close> or
  from no stored theme (page \<open>p\<close>, which \<^verbatim>\<open>initTheme\<close> loads), and likewise starting
  from a document whose theme is \<^verbatim>\<open>light\<close> or not set (page \<open>q\<close>), one call of
  \<^verbatim>\<open>toggleTheme\<close> sets the document theme to \<^verbatim>\<open>dark\<close> and stores \<^verbatim>\<open>dark\<close>; a
  second call sets it to \<^verbatim>\<open>light\<close> and stores \<^verbatim>\<open>light\<close>.
\<close>

theorem toggleTheme_two_state_flip:
  assumes "stored_theme p = None \<or> stored_theme p = Some ''light''"
    and "data_theme q = None \<or> data_theme q = Some ''light''"
  shows "data_theme (fst (initTheme p)) = Some ''light'' \<and>
         data_theme (fst (toggleTheme (fst (initTheme p)))) = Some ''dark'' \<and>
         stored_theme (fst (toggleTheme (fst (initTheme p)))) = Some ''dark'' \<and>
         data_theme (fst (toggleTheme (fst (toggleTheme (fst (initTheme p)))))) = Some ''light'' \<and>
         stored_theme (fst (toggleTheme (fst (toggleTheme (fst (initTheme p)))))) = Some ''light'' \<and>
         data_theme (fst (toggleTheme q)) = Some ''dark'' \<and>
         stored_theme (fst (toggleTheme q)) = Some ''dark'' \<and>
         data_theme (fst (toggleTheme (fst (toggleTheme q)))) = Some ''light'' \<and>
         stored_theme (fst (toggleTheme (fst (toggleTheme q)))) = Some ''light''"
  using assms
  by (auto simp: initTheme_def toggleTheme_def updateThemeIcon_def Let_def
      split: option.splits)

text \<open>The instance: nothing stored for \<open>p\<close>, the document theme \<^verbatim>\<open>light\<close> for \<open>q\<close>.\<close>

theorem toggleTheme_two_state_flip_witness:
  "data_theme (fst (initTheme (page_of None None))) = Some ''light'' \<and>
   data_theme (fst (toggleTheme (fst (initTheme (page_of None None))))) = Some ''dark'' \<and>
   stored_theme (fst (toggleTheme (fst (initTheme (page_of None None))))) = Some ''dark'' \<and>
   data_theme (fst (toggleTheme (fst (toggleTheme (fst (initTheme (page_of None None))))))) =
     Some ''light'' \<and>
   stored_theme (fst (toggleTheme (fst (toggleTheme (fst (initTheme (page_of None None))))))) =
     Some ''light'' \<and>
   data_theme (fst (toggleTheme (page_of (Some ''light'') None))) = Some ''dark'' \<and>
   stored_theme (fst (toggleTheme (page_of (Some ''light'') None))) = Some ''dark'' \<and>
   data_theme (fst (toggleTheme (fst (toggleTheme (page_of (Some ''light'') None))))) =
     Some ''light'' \<and>
   stored_theme (fst (toggleTheme (fst (toggleTheme (page_of (Some ''light'') None))))) =
     Some ''light''"
proof (rule toggleTheme_two_state_flip)
  show "stored_theme (page_of None None) = None \<or>
        stored_theme (page_of None None) = Some ''light''"
    by (simp add: page_of_def)
  show "data_theme (page_of (Some ''light'') None) = None \<or>
        data_theme (page_of (Some ''light'') None) = Some ''light''"
    by (simp add: page_of_def)
qed

section \<open>Browser and system identification\<close>

lemma name_getBrowserInfo: "name (getBrowserInfo nav) = fst (browser_name_version (nav_userAgent nav))"
  by (simp add: getBrowserInfo_def Let_def split: prod.splits)

lemma version_getBrowserInfo: "version (getBrowserInfo nav) = snd (browser_name_version (nav_userAgent nav))"
  by (simp add: getBrowserInfo_def Let_def split: prod.splits)

lemma os_getSystemInfo: "os (getSystemInfo f note nav) = fst (os_platform (nav_userAgent nav))"
  by (simp add: getSystemInfo_def Let_def split: prod.splits)

lemma occurrences_Cons:
  "occurrences lit (c # cs) =
     (if take (length lit) (c # cs) = lit then [0] else []) @ map Suc (occurrences lit cs)"
  by (simp add: occurrences_def upt_Suc_shift filter_map comp_def del: upt_Suc)

lemma digits_at_Suc: "digits_at (c # cs) (Suc i) = digits_at cs i"
  by (simp add: digits_at_def)

lemma lit_digits_here:
  "lit_then lit digits_here s =
     (if take (length lit) s = lit \<and> digits_at s (length lit) \<noteq> []
      then Some (digits_at s (length lit)) else None)"
  by (simp add: lit_then_def digits_here_def digits_at_def prefix_take Let_def)

lemma exec_version_following:
  "lit \<noteq> [] \<Longrightarrow>
   capture_or_unknown (exec (lit_then lit digits_here) s) = version_following lit s"
proof (induction s)
  case Nil
  then show ?case
    by (simp add: lit_digits_here version_following_def occurrences_def capture_or_unknown_def)
next
  case (Cons c cs)
  show ?case
  proof (cases "take (length lit) (c # cs) = lit \<and> digits_at (c # cs) (length lit) \<noteq> []")
    case True
    then have "lit_then lit digits_here (c # cs) = Some (digits_at (c # cs) (length lit))"
      by (simp add: lit_digits_here)
    moreover from True have "version_following lit (c # cs) = digits_at (c # cs) (length lit)"
      by (simp add: version_following_def occurrences_Cons)
    ultimately show ?thesis using True
      by (simp add: capture_or_unknown_def)
  next
    case False
    then have here: "lit_then lit digits_here (c # cs) = None"
      by (simp add: lit_digits_here)
    have "filter (\<lambda>i. digits_at (c # cs) (i + length lit) \<noteq> []) (occurrences lit (c # cs)) =
          map Suc (filter (\<lambda>i. digits_at cs (i + length lit) \<noteq> []) (occurrences lit cs))"
      using False by (simp add: occurrences_Cons filter_map comp_def digits_at_Suc)
    then have "version_following lit (c # cs) = version_following lit cs"
      by (simp add: version_following_def digits_at_Suc split: list.splits)
    with here Cons show ?thesis by simp
  qed
qed

text \<open>
  C2, as the claim states it, fails: the user agent below contains \<^verbatim>\<open>Chrome\<close> and
  neither \<^verbatim>\<open>Edg\<close> nor \<^verbatim>\<open>OPR\<close>, no digit follows \<^verbatim>\<open>Chrome/\<close> in it, and the
  version returned is \<^verbatim>\<open>'Unknown'\<close>, which is not the (empty) run of digits after
  \<^verbatim>\<open>Chrome/\<close>.
\<close>

theorem chrome_version_counterexample:
  "includes_str ''Mozilla/5.0 Chrome/beta Safari/537.36'' ''Chrome'' \<and>
   \<not> includes_str ''Mozilla/5.0 Chrome/beta Safari/537.36'' ''Edg'' \<and>
   \<not> includes_str ''Mozilla/5.0 Chrome/beta Safari/537.36'' ''OPR'' \<and>
   spec_digits_following ''Chrome/'' ''Mozilla/5.0 Chrome/beta Safari/537.36'' = [] \<and>
   version (getBrowserInfo (navigator_of ''Mozilla/5.0 Chrome/beta Safari/537.36'')) = ''Unknown'' \<and>
   version (getBrowserInfo (navigator_of ''Mozilla/5.0 Chrome/beta Safari/537.36'')) \<noteq>
     spec_digits_following ''Chrome/'' ''Mozilla/5.0 Chrome/beta Safari/537.36''"
proof -
  have s: "spec_digits_following ''Chrome/'' ''Mozilla/5.0 Chrome/beta Safari/537.36'' = []"
    by code_simp
  have v: "version (getBrowserInfo (navigator_of ''Mozilla/5.0 Chrome/beta Safari/537.36'')) =
           ''Unknown''"
    by (simp add: version_getBrowserInfo navigator_of_def browser_name_version_def chrome_re_def
        lit_then_def digits_here_def capture_or_unknown_def is_digit_def)
  have i: "includes_str ''Mozilla/5.0 Chrome/beta Safari/537.36'' ''Chrome'' \<and>
     \<not> includes_str ''Mozilla/5.0 Chrome/beta Safari/537.36'' ''Edg'' \<and>
     \<not> includes_str ''Mozilla/5.0 Chrome/beta Safari/537.36'' ''OPR''"
    by simp
  from s v have "version (getBrowserInfo (navigator_of ''Mozilla/5.0 Chrome/beta Safari/537.36'')) \<noteq>
     spec_digits_following ''Chrome/'' ''Mozilla/5.0 Chrome/beta Safari/537.36''"
    by (simp only:) simp
  with s v i show ?thesis by blast
qed

text \<open>
  C2, amended. For every user agent that contains \<^verbatim>\<open>Chrome\<close> and neither \<^verbatim>\<open>Edg\<close>
  nor \<^verbatim>\<open>OPR\<close>, getBrowserInfo returns the name \<^verbatim>\<open>Chrome\<close>; the version is the run
  of digits that follows the first occurrence of \<^verbatim>\<open>Chrome/\<close> that a digit follows,
  and \<^verbatim>\<open>'Unknown'\<close> when no occurrence of \<^verbatim>\<open>Chrome/\<close> is followed by a digit.
\<close>

theorem chrome_version:
  assumes "includes_str (nav_userAgent nav) ''Chrome''"
    and "\<not> includes_str (nav_userAgent nav) ''Edg''"
    and "\<not> includes_str (nav_userAgent nav) ''OPR''"
  shows "name (getBrowserInfo nav) = ''Chrome'' \<and>
         version (getBrowserInfo nav) = version_following ''Chrome/'' (nav_userAgent nav)"
proof -
  have "capture_or_unknown (exec chrome_re (nav_userAgent nav)) =
        version_following ''Chrome/'' (nav_userAgent nav)"
    unfolding chrome_re_def by (rule exec_version_following) simp
  with assms show ?thesis
    by (simp add: name_getBrowserInfo version_getBrowserInfo browser_name_version_def)
qed

text \<open>The instance: a user agent of Chrome 120.\<close>

theorem chrome_version_witness:
  "name (getBrowserInfo (navigator_of ''Mozilla/5.0 Chrome/120.0.1 Safari/537.36'')) = ''Chrome'' \<and>
   version (getBrowserInfo (navigator_of ''Mozilla/5.0 Chrome/120.0.1 Safari/537.36'')) = ''120''"
proof -
  have ua: "nav_userAgent (navigator_of ''Mozilla/5.0 Chrome/120.0.1 Safari/537.36'') =
            ''Mozilla/5.0 Chrome/120.0.1 Safari/537.36''"
    by (simp add: navigator_of_def)
  have v: "version_following ''Chrome/'' ''Mozilla/5.0 Chrome/120.0.1 Safari/537.36'' = ''120''"
    by code_simp
  have "name (getBrowserInfo (navigator_of ''Mozilla/5.0 Chrome/120.0.1 Safari/537.36'')) = ''Chrome'' \<and>
        version (getBrowserInfo (navigator_of ''Mozilla/5.0 Chrome/120.0.1 Safari/537.36'')) =
        version_following ''Chrome/'' (nav_userAgent (navigator_of ''Mozilla/5.0 Chrome/120.0.1 Safari/537.36''))"
    by (rule chrome_version) (simp_all add: ua)
  then show ?thesis by (simp only: ua v)
qed

text \<open>
  C3, as the claim states it, fails. The first user agent is the one of Edge: it contains
  \<^verbatim>\<open>Chrome\<close> and \<^verbatim>\<open>Edg\<close>, the order of the claim gives Chrome, the code Edge. The
  second contains \<^verbatim>\<open>Safari\<close> and \<^verbatim>\<open>Firefox\<close>: the order of the claim gives Firefox,
  the code Safari.
\<close>

theorem browser_priority_counterexample:
  "includes_str ''Mozilla/5.0 Chrome/120.0 Safari/537.36 Edg/120.0'' ''Chrome'' \<and>
   includes_str ''Mozilla/5.0 Chrome/120.0 Safari/537.36 Edg/120.0'' ''Edg'' \<and>
   name (getBrowserInfo (navigator_of ''Mozilla/5.0 Chrome/120.0 Safari/537.36 Edg/120.0'')) = ''Edge'' \<and>
   spec_priority_name ''Mozilla/5.0 Chrome/120.0 Safari/537.36 Edg/120.0'' = ''Chrome'' \<and>
   includes_str ''Safari/605 Firefox/115'' ''Safari'' \<and>
   includes_str ''Safari/605 Firefox/115'' ''Firefox'' \<and>
   name (getBrowserInfo (navigator_of ''Safari/605 Firefox/115'')) = ''Safari'' \<and>
   spec_priority_name ''Safari/605 Firefox/115'' = ''Firefox''"
  by (simp add: name_getBrowserInfo navigator_of_def browser_name_version_def
      spec_priority_name_def)

text \<open>
  C3, amended. getBrowserInfo makes its tests in the order Chrome, Safari, Firefox, Edge,
  Opera and returns the name of the first that holds, \<^verbatim>\<open>'Unknown'\<close> when none holds;
  the test of Chrome is: contains \<^verbatim>\<open>Chrome\<close> and neither \<^verbatim>\<open>Edg\<close> nor \<^verbatim>\<open>OPR\<close>;
  of Safari: contains \<^verbatim>\<open>Safari\<close> and not \<^verbatim>\<open>Chrome\<close>; of Firefox: contains
  \<^verbatim>\<open>Firefox\<close>; of Edge: contains \<^verbatim>\<open>Edg\<close>; of Opera: contains \<^verbatim>\<open>OPR\<close> or
  \<^verbatim>\<open>Opera\<close>.
\<close>

theorem browser_test_order:
  "name (getBrowserInfo nav) =
     (let ua = nav_userAgent nav in
      first_holding
        [(''Chrome'', includes_str ua ''Chrome'' \<and> \<not> includes_str ua ''Edg'' \<and> \<not> includes_str ua ''OPR''),
         (''Safari'', includes_str ua ''Safari'' \<and> \<not> includes_str ua ''Chrome''),
         (''Firefox'', includes_str ua ''Firefox''),
         (''Edge'', includes_str ua ''Edg''),
         (''Opera'', includes_str ua ''OPR'' \<or> includes_str ua ''Opera'')])"
  by (simp add: name_getBrowserInfo browser_name_version_def Let_def)

text \<open>The instance: the user agent of Opera, which also contains \<^verbatim>\<open>Chrome\<close> and
  \<^verbatim>\<open>Safari\<close>.\<close>

theorem browser_test_order_witness:
  "name (getBrowserInfo (navigator_of ''Mozilla/5.0 Chrome/120.0 Safari/537.36 OPR/106.0'')) =
     ''Opera''"
proof -
  have ua: "nav_userAgent (navigator_of ''Mozilla/5.0 Chrome/120.0 Safari/537.36 OPR/106.0'') =
            ''Mozilla/5.0 Chrome/120.0 Safari/537.36 OPR/106.0''"
    by (simp add: navigator_of_def)
  show ?thesis
    unfolding browser_test_order [of "navigator_of ''Mozilla/5.0 Chrome/120.0 Safari/537.36 OPR/106.0''"] ua
    by (simp add: Let_def)
qed

text \<open>
  C4. For every user agent that contains none of the browser substrings \<^verbatim>\<open>Chrome\<close>,
  \<^verbatim>\<open>Safari\<close>, \<^verbatim>\<open>Firefox\<close>, \<^verbatim>\<open>Edg\<close>, \<^verbatim>\<open>OPR\<close>, \<^verbatim>\<open>Opera\<close> and none of the
  system substrings \<^verbatim>\<open>Win\<close>, \<^verbatim>\<open>Mac\<close>, \<^verbatim>\<open>Linux\<close>, \<^verbatim>\<open>Android\<close>, \<^verbatim>\<open>iOS\<close>,
  \<^verbatim>\<open>iPhone\<close>, \<^verbatim>\<open>iPad\<close>, \<^verbatim>\<open>iPod\<close>, getBrowserInfo returns the name and the
  version \<^verbatim>\<open>'Unknown'\<close> and getSystemInfo returns the system \<^verbatim>\<open>'Unknown'\<close>.
\<close>

theorem unknown_user_agent:
  assumes "\<not> includes_str (nav_userAgent nav) ''Chrome''"
    and "\<not> includes_str (nav_userAgent nav) ''Safari''"
    and "\<not> includes_str (nav_userAgent nav) ''Firefox''"
    and "\<not> includes_str (nav_userAgent nav) ''Edg''"
    and "\<not> includes_str (nav_userAgent nav) ''OPR''"
    and "\<not> includes_str (nav_userAgent nav) ''Opera''"
    and "\<not> includes_str (nav_userAgent nav) ''Win''"
    and "\<not> includes_str (nav_userAgent nav) ''Mac''"
    and "\<not> includes_str (nav_userAgent nav) ''Linux''"
    and "\<not> includes_str (nav_userAgent nav) ''Android''"
    and "\<not> includes_str (nav_userAgent nav) ''iOS''"
    and "\<not> includes_str (nav_userAgent nav) ''iPhone''"
    and "\<not> includes_str (nav_userAgent nav) ''iPad''"
    and "\<not> includes_str (nav_userAgent nav) ''iPod''"
  shows "name (getBrowserInfo nav) = ''Unknown'' \<and>
         version (getBrowserInfo nav) = ''Unknown'' \<and>
         os (getSystemInfo num_text cap_note nav) = ''Unknown''"
  using assms
  by (simp add: name_getBrowserInfo version_getBrowserInfo os_getSystemInfo
      browser_name_version_def os_platform_def)

text \<open>The instance: the user agent of a command line client.\<close>

theorem unknown_user_agent_witness:
  "name (getBrowserInfo (navigator_of ''curl/8.4.0'')) = ''Unknown'' \<and>
   version (getBrowserInfo (navigator_of ''curl/8.4.0'')) = ''Unknown'' \<and>
   os (getSystemInfo (\<lambda>r. []) [] (navigator_of ''curl/8.4.0'')) = ''Unknown''"
proof -
  have ua: "nav_userAgent (navigator_of ''curl/8.4.0'') = ''curl/8.4.0''"
    by (simp add: navigator_of_def)
  show ?thesis
    by (rule unknown_user_agent) (simp_all add: ua)
qed

section \<open>Network lookup\<close>

lemma get_set_prop_same: "get_prop (set_prop obj k v) k = v"
  by (induction obj) (auto simp: get_prop_def)

lemma get_set_prop_other: "k' \<noteq> k \<Longrightarrow> get_prop (set_prop obj k v) k' = get_prop obj k'"
  by (induction obj) (auto simp: get_prop_def)

lemma getNetworkInfo_returns: "\<exists>info. getNetworkInfo num_text conn primary secondary = Inr info"
  by (simp add: getNetworkInfo_def Let_def split: prod.splits option.splits)

lemma primary_block_object:
  "primary_block (Parsed (Obj ps)) info =
     (set_prop (set_prop (set_prop (set_prop (set_prop (set_prop info
        ''ip'' (or_unknown (get_prop ps ''ip'')))
        ''city'' (or_unknown (get_prop ps ''city'')))
        ''region'' (or_unknown (get_prop ps ''region'')))
        ''country'' (or_unknown (get_prop ps ''country'')))
        ''isp'' (or_unknown (get_prop ps ''organization_name'')))
        ''timezone'' (or_unknown (get_prop ps ''timezone'')), None)"
  by (simp add: primary_block_def assign_or_unknown_def Let_def)

lemma getNetworkInfo_primary_success:
  assumes "getNetworkInfo num_text conn (Parsed (Obj ps)) secondary = Inr info"
  shows "get_prop info ''ip'' = or_unknown (get_prop ps ''ip'') \<and>
         get_prop info ''city'' = or_unknown (get_prop ps ''city'') \<and>
         get_prop info ''region'' = or_unknown (get_prop ps ''region'') \<and>
         get_prop info ''country'' = or_unknown (get_prop ps ''country'') \<and>
         get_prop info ''isp'' = or_unknown (get_prop ps ''organization_name'') \<and>
         get_prop info ''timezone'' = or_unknown (get_prop ps ''timezone'')"
  using assms
  by (auto simp: getNetworkInfo_def primary_block_object Let_def get_set_prop_same
      get_set_prop_other)

lemma getNetworkInfo_fallback_fields:
  assumes "primary = Rejected \<or> primary = NotJson"
    and "getNetworkInfo num_text conn primary secondary = Inr info"
    and "k \<noteq> ''connection''" "k \<noteq> ''effectiveType''" "k \<noteq> ''downlink''" "k \<noteq> ''rtt''"
    and "k \<noteq> ''ip''"
  shows "get_prop info k = Undefined"
proof -
  define info0 where "info0 = [(''connection'', Str ''Unknown''), (''effectiveType'', Str ''Unknown''),
                   (''downlink'', Str ''Unknown''), (''rtt'', Str ''Unknown'')]"
  define info1 where "info1 = (case conn of
                     None \<Rightarrow> info0
                   | Some c \<Rightarrow>
                       set_prop
                         (set_prop
                            (set_prop
                               (set_prop info0 ''connection'' (str_or_unknown (conn_type c)))
                               ''effectiveType'' (str_or_unknown (conn_effectiveType c)))
                            ''downlink'' (num_or_unknown num_text '' Mbps'' (conn_downlink c)))
                         ''rtt'' (num_or_unknown num_text '' ms'' (conn_rtt c)))"
  have k0: "get_prop info0 k = Undefined"
    using assms(3-6) by (simp add: info0_def get_prop_def)
  have k1: "get_prop info1 k = Undefined"
    using assms(3-6) k0 by (simp add: info1_def get_set_prop_other split: option.splits)
  have "info = info1 \<or> (\<exists>v. info = set_prop info1 ''ip'' v)"
    using assms(1,2)
    by (auto simp: getNetworkInfo_def primary_block_def secondary_block_def
        assign_or_unknown_def Let_def info0_def [symmetric] info1_def [symmetric]
        split: fetch_json.splits sum.splits)
  with k1 assms(7) show ?thesis
    by (auto simp: get_set_prop_other)
qed

text \<open>
  C1. The claim says that after a failure of the primary endpoint the fields city,
  region, country, isp and timezone equal \<^verbatim>\<open>'Unknown'\<close> (and the field ip too when the
  secondary endpoint fails as well). The object the code returns has no such properties:
  only the four connection properties start at \<^verbatim>\<open>'Unknown'\<close>, so reading city gives
  \<^verbatim>\<open>undefined\<close>. Below: the primary request rejected and the secondary answering with
  an address; then both requests rejected.
\<close>

theorem getNetworkInfo_fallback_leaves_fields_undefined:
  "getNetworkInfo (\<lambda>r. []) None Rejected (Parsed (Obj [(''ip'', Str ''203.0.113.7'')])) =
     Inr [(''connection'', Str ''Unknown''), (''effectiveType'', Str ''Unknown''),
          (''downlink'', Str ''Unknown''), (''rtt'', Str ''Unknown''),
          (''ip'', Str ''203.0.113.7'')] \<and>
   get_prop [(''connection'', Str ''Unknown''), (''effectiveType'', Str ''Unknown''),
          (''downlink'', Str ''Unknown''), (''rtt'', Str ''Unknown''),
          (''ip'', Str ''203.0.113.7'')] ''city'' = Undefined \<and>
   getNetworkInfo (\<lambda>r. []) None Rejected Rejected =
     Inr [(''connection'', Str ''Unknown''), (''effectiveType'', Str ''Unknown''),
          (''downlink'', Str ''Unknown''), (''rtt'', Str ''Unknown'')] \<and>
   get_prop [(''connection'', Str ''Unknown''), (''effectiveType'', Str ''Unknown''),
          (''downlink'', Str ''Unknown''), (''rtt'', Str ''Unknown'')] ''ip'' = Undefined"
  by (simp add: getNetworkInfo_def primary_block_def secondary_block_def
      assign_or_unknown_def get_prop_def or_unknown_def Let_def)

section \<open>Properties of escapeHtml\<close>

lemma entity_lookup_spec: "entity_class c \<Longrightarrow> entity_lookup c = spec_entity c"
  by (auto simp: entity_class_def entity_lookup_def entity_map_def spec_entity_def
      dquote_def squote_def)

lemma spec_entity_other: "\<not> entity_class c \<Longrightarrow> spec_entity c = [c]"
  by (simp add: entity_class_def spec_entity_def)

lemma replace_class_spec:
  "replace_class entity_class entity_lookup s = concat (map spec_entity s)"
  by (induction s) (simp_all add: entity_lookup_spec spec_entity_other)

text \<open>
  C5. For every input string, escapeHtml returns the string in which each occurrence of
  the five reserved characters is replaced by its entity (\<open><\<close> by \<open>&lt;\<close>, \<open>>\<close> by
  \<open>&gt;\<close>, \<open>&\<close> by \<open>&amp;\<close>, the double quote by \<open>&quot;\<close>, the single quote by
  \<open>&#039;\<close>) and every other character stays in its place. The function is total: it
  has this result on every string.
\<close>

theorem escapeHtml_replaces_reserved:
  "escapeHtml s = concat (map spec_entity s)"
  by (simp add: escapeHtml_def replace_class_spec)

lemma escapeHtml_Nil: "escapeHtml [] = []"
  by (simp add: escapeHtml_def)

lemma escapeHtml_Cons:
  "escapeHtml (c # cs) = (if entity_class c then entity_lookup c else [c]) @ escapeHtml cs"
  by (simp add: escapeHtml_def)

lemma escapeHtml_append: "escapeHtml (xs @ ys) = escapeHtml xs @ escapeHtml ys"
  by (induction xs) (simp_all add: escapeHtml_Nil escapeHtml_Cons)

lemma entity_lookup_shape:
  "entity_class c \<Longrightarrow> \<exists>r. entity_lookup c = CHR ''&'' # r \<and> r \<noteq> []"
  by (auto simp: entity_class_def entity_lookup_def entity_map_def dquote_def squote_def)

lemma escapeHtml_length: "length s \<le> length (escapeHtml s)"
proof (induction s)
  case Nil
  show ?case by (simp add: escapeHtml_Nil)
next
  case (Cons c cs)
  show ?case
  proof (cases "entity_class c")
    case True
    then obtain r where "entity_lookup c = CHR ''&'' # r"
      using entity_lookup_shape by blast
    with True Cons.IH show ?thesis by (simp add: escapeHtml_Cons)
  next
    case False
    with Cons.IH show ?thesis by (simp add: escapeHtml_Cons)
  qed
qed

lemma escapeHtml_longer: "has_reserved s \<Longrightarrow> length s < length (escapeHtml s)"
proof (induction s)
  case Nil
  then show ?case by (simp add: has_reserved_def)
next
  case (Cons c cs)
  show ?case
  proof (cases "entity_class c")
    case True
    then obtain r where r: "entity_lookup c = CHR ''&'' # r" "r \<noteq> []"
      using entity_lookup_shape by blast
    then have "2 \<le> length (entity_lookup c)"
      by (cases r) simp_all
    with True escapeHtml_length [of cs] show ?thesis
      by (simp add: escapeHtml_Cons)
  next
    case False
    with Cons.prems have "has_reserved cs"
      by (simp add: has_reserved_def)
    with Cons.IH False show ?thesis
      by (simp add: escapeHtml_Cons)
  qed
qed

lemma escapeHtml_keeps_reserved: "has_reserved s \<Longrightarrow> has_reserved (escapeHtml s)"
proof (induction s)
  case Nil
  then show ?case by (simp add: has_reserved_def)
next
  case (Cons c cs)
  show ?case
  proof (cases "entity_class c")
    case True
    then obtain r where "entity_lookup c = CHR ''&'' # r"
      using entity_lookup_shape by blast
    with True show ?thesis
      by (simp add: escapeHtml_Cons has_reserved_def entity_class_def)
  next
    case False
    with Cons.prems have "has_reserved cs"
      by (simp add: has_reserved_def)
    with Cons.IH False show ?thesis
      by (simp add: escapeHtml_Cons has_reserved_def)
  qed
qed

lemma escapeHtml_id: "\<not> has_reserved s \<Longrightarrow> escapeHtml s = s"
  by (induction s) (simp_all add: escapeHtml_Nil escapeHtml_Cons has_reserved_def)

text \<open>
  C6. escapeHtml applied twice equals escapeHtml applied once exactly for the strings
  that contain none of the five reserved characters: on such a string escapeHtml is the
  identity, and on a string that contains one of them the second application changes
  the result of the first.
\<close>

theorem escapeHtml_idempotent_iff:
  "(\<not> has_reserved s \<longrightarrow> escapeHtml (escapeHtml s) = escapeHtml s \<and> escapeHtml s = s) \<and>
   (has_reserved s \<longrightarrow> escapeHtml (escapeHtml s) \<noteq> escapeHtml s)"
proof (intro conjI impI)
  assume "\<not> has_reserved s"
  then show "escapeHtml (escapeHtml s) = escapeHtml s" by (simp add: escapeHtml_id)
next
  assume "\<not> has_reserved s"
  then show "escapeHtml s = s" by (rule escapeHtml_id)
next
  assume "has_reserved s"
  then have "has_reserved (escapeHtml s)" by (rule escapeHtml_keeps_reserved)
  then have "length (escapeHtml s) < length (escapeHtml (escapeHtml s))"
    by (rule escapeHtml_longer)
  then show "escapeHtml (escapeHtml s) \<noteq> escapeHtml s" by auto
qed

text \<open>The instances: a text without reserved character, and one with \<open><\<close>.\<close>

theorem escapeHtml_idempotent_iff_witness:
  "\<not> has_reserved ''plain text'' \<and>
   escapeHtml (escapeHtml ''plain text'') = escapeHtml ''plain text'' \<and>
   escapeHtml ''plain text'' = ''plain text'' \<and>
   has_reserved ''a<b'' \<and>
   escapeHtml (escapeHtml ''a<b'') \<noteq> escapeHtml ''a<b''"
proof -
  have plain: "\<not> has_reserved ''plain text''"
    by (simp add: has_reserved_def entity_class_def dquote_def squote_def)
  have res: "has_reserved ''a<b''"
    by (simp add: has_reserved_def entity_class_def)
  from plain res escapeHtml_idempotent_iff [of "''plain text''"]
    escapeHtml_idempotent_iff [of "''a<b''"]
  show ?thesis by blast
qed

section \<open>Markdown renderer: paragraphs\<close>

lemma plain_block_tl: "plain_block (x # b) \<Longrightarrow> plain_block b"
  by (cases b) auto

lemma split_blank_block:
  "plain_block b \<Longrightarrow> split_blank acc (b @ nl # nl # rest) = (acc @ b) # split_blank [] rest"
proof (induction b arbitrary: acc)
  case Nil
  show ?case by simp
next
  case (Cons x b)
  have pb: "plain_block b" using Cons.prems by (rule plain_block_tl)
  show ?case
  proof (cases b)
    case Nil
    with Cons.prems have "x \<noteq> nl" by simp
    with Nil show ?thesis by simp
  next
    case (Cons y b')
    with Cons.prems have "\<not> (x = nl \<and> y = nl)" by simp
    then have "split_blank acc ((x # b) @ nl # nl # rest) =
               split_blank (acc @ [x]) (b @ nl # nl # rest)"
      using Cons by auto
    also have "\<dots> = ((acc @ [x]) @ b) # split_blank [] rest"
      using pb by (rule Cons.IH)
    finally show ?thesis by simp
  qed
qed

lemma split_blank_whole: "no_blank b \<Longrightarrow> split_blank acc b = [acc @ b]"
proof (induction acc b rule: split_blank.induct)
  case (1 acc)
  show ?case by simp
next
  case (2 acc a)
  show ?case by simp
next
  case (3 acc a b cs)
  then show ?case by auto
qed

lemma split_blank_blocks: "blocks_ok bs \<Longrightarrow> split_blank [] (join [nl, nl] bs) = bs"
proof (induction bs rule: blocks_ok.induct)
  case 1
  then show ?case by simp
next
  case (2 b)
  then show ?case by (simp add: split_blank_whole)
next
  case (3 b c cs)
  then show ?case by (simp add: split_blank_block)
qed

lemma split_blank_nonempty: "split_blank acc t \<noteq> []"
  by (induction acc t rule: split_blank.induct) simp_all

lemma plain_block_no_blank: "plain_block b \<longleftrightarrow> no_blank b \<and> (b = [] \<or> last b \<noteq> nl)"
  by (induction b rule: plain_block.induct) auto

lemma no_blank_snoc:
  "no_blank (acc @ [a]) \<longleftrightarrow> no_blank acc \<and> \<not> (acc \<noteq> [] \<and> last acc = nl \<and> a = nl)"
  by (induction acc rule: no_blank.induct) auto

lemma blocks_ok_Cons: "rest \<noteq> [] \<Longrightarrow> blocks_ok (b # rest) \<longleftrightarrow> plain_block b \<and> blocks_ok rest"
  by (cases rest) simp_all

lemma join_Cons: "rest \<noteq> [] \<Longrightarrow> join sep (b # rest) = b @ sep @ join sep rest"
  by (cases rest) simp_all

lemma split_blank_complete:
  "no_blank acc \<Longrightarrow> (acc \<noteq> [] \<and> last acc = nl \<longrightarrow> t = [] \<or> hd t \<noteq> nl) \<Longrightarrow>
   blocks_ok (split_blank acc t) \<and> join [nl, nl] (split_blank acc t) = acc @ t"
proof (induction acc t rule: split_blank.induct)
  case (1 acc)
  then show ?case by simp
next
  case (2 acc a)
  then show ?case by (auto simp: no_blank_snoc)
next
  case (3 acc a b cs)
  show ?case
  proof (cases "a = nl \<and> b = nl")
    case True
    with "3.prems" have "plain_block acc"
      by (auto simp: plain_block_no_blank)
    moreover have "blocks_ok (split_blank [] cs) \<and> join [nl, nl] (split_blank [] cs) = [] @ cs"
      using True by (intro "3.IH"(1)) simp_all
    ultimately show ?thesis
      using True by (simp add: blocks_ok_Cons join_Cons split_blank_nonempty)
  next
    case False
    have "blocks_ok (split_blank (acc @ [a]) (b # cs)) \<and>
          join [nl, nl] (split_blank (acc @ [a]) (b # cs)) = (acc @ [a]) @ (b # cs)"
      using False "3.prems" by (intro "3.IH"(2)) (auto simp: no_blank_snoc)
    with False show ?thesis by auto
  qed
qed

text \<open>
  C7, as the claim states it, fails in its last part: output of an earlier rule is
  wrapped a second time when it does not begin its block. The header rule turns the
  second line of the input below into an \<^verbatim>\<open>h1\<close> element, and the paragraph rule wraps
  the block, the element included, in a \<^verbatim>\<open>p\<close> element.
\<close>

theorem paragraph_wraps_earlier_output:
  "headers (''Intro'' @ [nl] @ ''# Title'') = ''Intro'' @ [nl] @ ''<h1>Title</h1>'' \<and>
   parseMarkdown (''Intro'' @ [nl] @ ''# Title'') = ''<p>Intro<br><h1>Title</h1></p>''"
  by code_simp

text \<open>
  C7, amended. parseMarkdown applied to the heading \<^verbatim>\<open># Title\<close>, a blank line and
  \<^verbatim>\<open>Body text\<close> returns the \<^verbatim>\<open>h1\<close> element, a line feed and the \<^verbatim>\<open>p\<close> element of
  the body. More generally the paragraph rule maps every text block by block, the blocks
  being the pieces between blank lines, and joins the results by line feeds: a block that
  starts with \<open><\<close> is emitted unchanged, so output of the earlier rules that begins a
  block is not wrapped a second time; a block that starts otherwise is wrapped whole in a
  \<^verbatim>\<open>p\<close> element, its line feeds turned into \<^verbatim>\<open><br>\<close>, with whatever the earlier
  rules produced inside it. This holds of the join of any blocks \<open>bs\<close>, and every text
  \<open>t\<close> is such a join, of the blocks \<open>split_blank [] t\<close>.
\<close>

theorem paragraphs_keep_tagged_blocks:
  assumes "blocks_ok bs"
  shows "parseMarkdown (''# Title'' @ [nl, nl] @ ''Body text'') =
           ''<h1>Title</h1>'' @ [nl] @ ''<p>Body text</p>'' \<and>
         paragraphs (join [nl, nl] bs) =
           join [nl]
             (map (\<lambda>b. if prefix ''<'' b then b
                        else ''<p>'' @ replace_class (\<lambda>c. c = nl) (\<lambda>m. ''<br>'') b @ ''</p>'')
                bs) \<and>
         blocks_ok (split_blank [] t) \<and>
         join [nl, nl] (split_blank [] t) = t \<and>
         paragraphs t =
           join [nl]
             (map (\<lambda>b. if prefix ''<'' b then b
                        else ''<p>'' @ replace_class (\<lambda>c. c = nl) (\<lambda>m. ''<br>'') b @ ''</p>'')
                (split_blank [] t))"
proof -
  have ex: "parseMarkdown (''# Title'' @ [nl, nl] @ ''Body text'') =
           ''<h1>Title</h1>'' @ [nl] @ ''<p>Body text</p>''"
    by code_simp
  have w: "wrap_paragraph = (\<lambda>b. if prefix ''<'' b then b
                        else ''<p>'' @ replace_class (\<lambda>c. c = nl) (\<lambda>m. ''<br>'') b @ ''</p>'')"
    by (simp add: fun_eq_iff wrap_paragraph_def)
  have j: "paragraphs (join [nl, nl] bs) = join [nl] (map wrap_paragraph bs)"
    using assms by (simp add: paragraphs_def split_blank_blocks)
  have c: "blocks_ok (split_blank [] t) \<and> join [nl, nl] (split_blank [] t) = [] @ t"
    by (rule split_blank_complete) simp_all
  have p: "paragraphs t = join [nl] (map wrap_paragraph (split_blank [] t))"
    by (simp add: paragraphs_def)
  from ex j c p show ?thesis
    by (simp only: w append_Nil) 
qed

text \<open>
  The instance: a block that is a heading element, and a last block of two lines of text
  that ends in a line feed.
\<close>

theorem paragraphs_keep_tagged_blocks_witness:
  "paragraphs (''<h1>Title</h1>'' @ [nl, nl] @ ''Body'' @ [nl] @ ''text'' @ [nl]) =
     ''<h1>Title</h1>'' @ [nl] @ ''<p>Body<br>text<br></p>''"
proof -
  have ok: "blocks_ok [''<h1>Title</h1>'', ''Body'' @ [nl] @ ''text'' @ [nl]]"
    by (simp add: nl_def)
  from paragraphs_keep_tagged_blocks [OF ok]
  have "paragraphs (join [nl, nl] [''<h1>Title</h1>'', ''Body'' @ [nl] @ ''text'' @ [nl]]) =
           join [nl]
             (map (\<lambda>b. if prefix ''<'' b then b
                        else ''<p>'' @ replace_class (\<lambda>c. c = nl) (\<lambda>m. ''<br>'') b @ ''</p>'')
                [''<h1>Title</h1>'', ''Body'' @ [nl] @ ''text'' @ [nl]])"
    by blast
  then show ?thesis
    by (simp add: nl_def)
qed

section \<open>Markdown renderer: lists\<close>

lemma one_line_Cons: "one_line (x # l) \<longleftrightarrow> \<not> is_line_terminator x \<and> one_line l"
  by (simp add: one_line_def)

lemma one_line_append: "one_line (a @ b) \<longleftrightarrow> one_line a \<and> one_line b"
  by (simp add: one_line_def)

lemma one_line_drop: "one_line l \<Longrightarrow> one_line (drop n l)"
  by (metis append_take_drop_id one_line_append)

lemma takeWhile_line:
  "one_line l \<Longrightarrow> is_line_terminator t \<Longrightarrow>
   takeWhile (\<lambda>c. \<not> is_line_terminator c) (l @ t # rest) = l"
  by (induction l) (simp_all add: one_line_Cons)

lemma dropWhile_line:
  "one_line l \<Longrightarrow> is_line_terminator t \<Longrightarrow>
   dropWhile (\<lambda>c. \<not> is_line_terminator c) (l @ t # rest) = t # rest"
  by (induction l) (simp_all add: one_line_Cons)

lemma takeWhile_whole: "one_line l \<Longrightarrow> takeWhile (\<lambda>c. \<not> is_line_terminator c) l = l"
  by (induction l) (simp_all add: one_line_Cons)

lemma dropWhile_whole: "one_line l \<Longrightarrow> dropWhile (\<lambda>c. \<not> is_line_terminator c) l = []"
  by (induction l) (simp_all add: one_line_Cons)

text \<open>Inside a line no match can start: the characters are copied.\<close>

lemma replace_lines_copy:
  "one_line l \<Longrightarrow> \<not> at_line_start prev \<Longrightarrow>
   replace_lines m prev (l @ rest) =
     l @ replace_lines m (if l = [] then prev else Some (last l)) rest"
proof (induction l arbitrary: prev)
  case Nil
  show ?case by simp
next
  case (Cons x l)
  then have x: "\<not> is_line_terminator x" and l: "one_line l"
    by (simp_all add: one_line_Cons)
  from x have "\<not> at_line_start (Some x)" by (simp add: at_line_start_def)
  with l have "replace_lines m (Some x) (l @ rest) =
     l @ replace_lines m (if l = [] then Some x else Some (last l)) rest"
    by (rule Cons.IH)
  with Cons.prems(2) show ?case by simp
qed

lemma prefix_line:
  "one_line marker \<Longrightarrow> is_line_terminator t \<Longrightarrow>
   prefix marker (l @ t # rest) \<longleftrightarrow> prefix marker l"
proof (induction marker arbitrary: l)
  case Nil
  show ?case by simp
next
  case (Cons a marker)
  then have a: "\<not> is_line_terminator a" and m: "one_line marker"
    by (simp_all add: one_line_Cons)
  show ?case
  proof (cases l)
    case Nil
    with a Cons.prems(2) show ?thesis by auto
  next
    case (Cons b l')
    with Cons.IH [OF m Cons.prems(2), of l'] show ?thesis by simp
  qed
qed

lemma one_line_last: "one_line l \<Longrightarrow> l \<noteq> [] \<Longrightarrow> \<not> is_line_terminator (last l)"
  by (induction l) (auto simp: one_line_Cons)

lemma replace_lines_inside:
  "\<not> at_line_start prev \<Longrightarrow>
   replace_lines m prev (t # rest) = t # replace_lines m (Some t) rest"
  by simp

lemma replace_lines_after_line:
  assumes "one_line l" and "l \<noteq> []"
  shows "replace_lines m (Some (last l)) (t # rest) = t # replace_lines m (Some t) rest"
proof -
  from assms have "\<not> at_line_start (Some (last l))"
    by (simp add: at_line_start_def one_line_last)
  then show ?thesis by (rule replace_lines_inside)
qed

lemma line_rule_line:
  assumes "one_line l" and "is_line_terminator t" and "prefix marker l"
  shows "line_rule marker opn cls (l @ t # rest) =
           Some (opn @ drop (length marker) l @ cls, t # rest)"
proof -
  from assms(3) have len: "length marker \<le> length l"
    by (rule prefix_length_le)
  from assms(1) have body: "one_line (drop (length marker) l)"
    by (rule one_line_drop)
  from assms(3) have "prefix marker (l @ t # rest)"
    by (simp add: prefix_prefix)
  then show ?thesis
    using len takeWhile_line [OF body assms(2)] dropWhile_line [OF body assms(2)]
    by (simp add: line_rule_def Let_def)
qed

lemma line_rule_last:
  assumes "one_line l" and "prefix marker l"
  shows "line_rule marker opn cls l = Some (opn @ drop (length marker) l @ cls, [])"
proof -
  from assms(1) have body: "one_line (drop (length marker) l)"
    by (rule one_line_drop)
  show ?thesis
    using assms(2) takeWhile_whole [OF body] dropWhile_whole [OF body]
    by (simp add: line_rule_def Let_def)
qed

lemma line_rule_none: "\<not> prefix marker s \<Longrightarrow> line_rule marker opn cls s = None"
  by (simp add: line_rule_def)

text \<open>One line and its terminator, read from the start of the line.\<close>

lemma replace_lines_line:
  assumes marker: "marker \<noteq> []" "one_line marker"
    and l: "one_line l" and t: "is_line_terminator t" and start: "at_line_start prev"
  shows "replace_lines (line_rule marker opn cls) prev (l @ t # rest) =
           li_line marker opn cls l @ t # replace_lines (line_rule marker opn cls) (Some t) rest"
proof (cases "prefix marker l")
  case True
  with marker(1) obtain x l' where xl: "l = x # l'"
    by (cases l) auto
  have m: "line_rule marker opn cls (x # l' @ t # rest) =
             Some (opn @ drop (length marker) l @ cls, t # rest)"
    using line_rule_line [OF l t True, of opn cls rest] by (simp add: xl)
  have "take (length (x # l' @ t # rest) - length (t # rest)) (x # l' @ t # rest) = l"
    by (simp add: xl)
  then have "replace_lines (line_rule marker opn cls) prev (x # l' @ t # rest) =
      (opn @ drop (length marker) l @ cls) @
      replace_lines (line_rule marker opn cls) (Some (last l)) (t # rest)"
    using start m by (simp del: take_Suc_Cons take_Cons' length_Cons add: xl)
  also have "replace_lines (line_rule marker opn cls) (Some (last l)) (t # rest) =
      t # replace_lines (line_rule marker opn cls) (Some t) rest"
    using l by (rule replace_lines_after_line) (simp add: xl)
  finally show ?thesis
    using True by (simp add: li_line_def xl)
next
  case False
  then have none: "line_rule marker opn cls (l @ t # rest) = None"
    using prefix_line [OF marker(2) t, of l rest] by (simp add: line_rule_none)
  show ?thesis
  proof (cases l)
    case Nil
    with none False show ?thesis by (simp add: li_line_def)
  next
    case (Cons x l')
    with l have x: "\<not> is_line_terminator x" and l': "one_line l'"
      by (simp_all add: one_line_Cons)
    from x have nx: "\<not> at_line_start (Some x)" by (simp add: at_line_start_def)
    have "replace_lines (line_rule marker opn cls) prev (x # l' @ t # rest) =
        x # replace_lines (line_rule marker opn cls) (Some x) (l' @ t # rest)"
      using none Cons by simp
    also have "replace_lines (line_rule marker opn cls) (Some x) (l' @ t # rest) =
        l' @ replace_lines (line_rule marker opn cls)
               (if l' = [] then Some x else Some (last l')) (t # rest)"
      using l' nx by (rule replace_lines_copy)
    also have "replace_lines (line_rule marker opn cls)
               (if l' = [] then Some x else Some (last l')) (t # rest) =
        t # replace_lines (line_rule marker opn cls) (Some t) rest"
      using nx l' by (simp add: at_line_start_def one_line_last)
    finally show ?thesis
      using False Cons by (simp add: li_line_def)
  qed
qed

text \<open>The last line, which no terminator follows.\<close>

lemma replace_lines_last:
  assumes marker: "marker \<noteq> []" and l: "one_line l" and start: "at_line_start prev"
  shows "replace_lines (line_rule marker opn cls) prev l = li_line marker opn cls l"
proof (cases l)
  case Nil
  with marker show ?thesis by (simp add: li_line_def)
next
  case (Cons x l')
  with l have x: "\<not> is_line_terminator x" and l': "one_line l'"
    by (simp_all add: one_line_Cons)
  show ?thesis
  proof (cases "prefix marker l")
    case True
    have "line_rule marker opn cls (x # l') = Some (opn @ drop (length marker) l @ cls, [])"
      using line_rule_last [OF l True, of opn cls] by (simp add: Cons)
    with start True show ?thesis
      by (simp add: Cons li_line_def)
  next
    case False
    then have none: "line_rule marker opn cls (x # l') = None"
      by (simp add: line_rule_none Cons)
    from x have nx: "\<not> at_line_start (Some x)" by (simp add: at_line_start_def)
    have "replace_lines (line_rule marker opn cls) (Some x) (l' @ []) =
        l' @ replace_lines (line_rule marker opn cls)
               (if l' = [] then Some x else Some (last l')) []"
      using l' nx by (rule replace_lines_copy)
    with none False show ?thesis
      by (simp add: Cons li_line_def)
  qed
qed

lemma one_line_li_line:
  "one_line opn \<Longrightarrow> one_line cls \<Longrightarrow> one_line l \<Longrightarrow> one_line (li_line marker opn cls l)"
  by (simp add: li_line_def one_line_append one_line_drop)

lemma li_item_compose:
  "li_line ''- '' ''<li>'' ''</li>'' (li_line ''* '' ''<li>'' ''</li>'' l) = li_item l"
  by (auto simp: li_line_def li_item_def prefix_def)

text \<open>Every text is put together from its lines.\<close>

lemma split_lines_complete:
  "lines_ok (fst (split_lines s)) (snd (split_lines s)) \<and>
   text_of (fst (split_lines s)) (snd (split_lines s)) = s"
proof (induction s)
  case Nil
  show ?case by (simp add: one_line_def)
next
  case (Cons c cs)
  obtain segs lst where sl: "split_lines cs = (segs, lst)"
    by (cases "split_lines cs")
  with Cons have ok: "lines_ok segs lst" and tx: "text_of segs lst = cs"
    by simp_all
  show ?case
  proof (cases "is_line_terminator c")
    case True
    with sl ok tx show ?thesis by (simp add: one_line_def)
  next
    case False
    show ?thesis
    proof (cases segs)
      case Nil
      with sl ok tx False show ?thesis by (simp add: one_line_Cons)
    next
      case (Cons p rest)
      obtain l t where p: "p = (l, t)" by (cases p)
      with Cons sl ok tx False show ?thesis by (simp add: one_line_Cons)
    qed
  qed
qed

lemma at_line_start_terminator: "is_line_terminator t \<Longrightarrow> at_line_start (Some t)"
  by (simp add: at_line_start_def)

lemma replace_lines_text:
  assumes marker: "marker \<noteq> []" "one_line marker"
  shows "lines_ok segs lst \<Longrightarrow> at_line_start prev \<Longrightarrow>
         replace_lines (line_rule marker opn cls) prev (text_of segs lst) =
           text_of (map_lines (li_line marker opn cls) segs) (li_line marker opn cls lst)"
proof (induction segs arbitrary: prev)
  case Nil
  then show ?case
    using marker(1) by (simp add: map_lines_def replace_lines_last)
next
  case (Cons p segs)
  obtain l t where p: "p = (l, t)" by (cases p)
  with Cons.prems have l: "one_line l" and t: "is_line_terminator t" and ok: "lines_ok segs lst"
    by simp_all
  have "replace_lines (line_rule marker opn cls) prev (l @ t # text_of segs lst) =
          li_line marker opn cls l @ t #
          replace_lines (line_rule marker opn cls) (Some t) (text_of segs lst)"
    using marker l t Cons.prems(2) by (rule replace_lines_line)
  also have "replace_lines (line_rule marker opn cls) (Some t) (text_of segs lst) =
          text_of (map_lines (li_line marker opn cls) segs) (li_line marker opn cls lst)"
    using ok t by (intro Cons.IH at_line_start_terminator)
  finally show ?case
    by (simp add: p map_lines_def)
qed

lemma lines_ok_map:
  assumes "\<And>l. one_line l \<Longrightarrow> one_line (f l)"
  shows "lines_ok segs lst \<Longrightarrow> lines_ok (map_lines f segs) (f lst)"
  by (induction segs) (auto simp: map_lines_def assms)

lemma map_lines_compose: "map_lines f (map_lines g segs) = map_lines (\<lambda>l. f (g l)) segs"
  by (induction segs) (auto simp: map_lines_def)

lemma list_items_text:
  assumes "lines_ok segs lst"
  shows "list_items (text_of segs lst) = text_of (map_lines li_item segs) (li_item lst)"
proof -
  have tags: "one_line ''<li>''" "one_line ''</li>''"
    by (simp_all add: one_line_def is_line_terminator_def nl_def cr_def)
  have star: "''* '' \<noteq> []" "one_line ''* ''"
    by (simp_all add: one_line_def is_line_terminator_def nl_def cr_def)
  have dash: "''- '' \<noteq> []" "one_line ''- ''"
    by (simp_all add: one_line_def is_line_terminator_def nl_def cr_def)
  have start: "at_line_start None"
    by (simp add: at_line_start_def)
  have 1: "replace_lines (line_rule ''* '' ''<li>'' ''</li>'') None (text_of segs lst) =
        text_of (map_lines (li_line ''* '' ''<li>'' ''</li>'') segs)
          (li_line ''* '' ''<li>'' ''</li>'' lst)"
    using star assms start by (rule replace_lines_text)
  have ok: "lines_ok (map_lines (li_line ''* '' ''<li>'' ''</li>'') segs)
          (li_line ''* '' ''<li>'' ''</li>'' lst)"
    using assms by (rule lines_ok_map [rotated]) (simp add: one_line_li_line tags)
  have 2: "replace_lines (line_rule ''- '' ''<li>'' ''</li>'') None
          (text_of (map_lines (li_line ''* '' ''<li>'' ''</li>'') segs)
             (li_line ''* '' ''<li>'' ''</li>'' lst)) =
        text_of (map_lines (li_line ''- '' ''<li>'' ''</li>'')
                   (map_lines (li_line ''* '' ''<li>'' ''</li>'') segs))
          (li_line ''- '' ''<li>'' ''</li>'' (li_line ''* '' ''<li>'' ''</li>'' lst))"
    using dash ok start by (rule replace_lines_text)
  have 3: "map_lines (li_line ''- '' ''<li>'' ''</li>'')
             (map_lines (li_line ''* '' ''<li>'' ''</li>'') segs) = map_lines li_item segs"
    by (simp add: map_lines_compose li_item_compose)
  from 1 2 show ?thesis
    by (simp only: list_items_def 3 li_item_compose)
qed

subsection \<open>The list container\<close>

lemma greedy_until_none: "\<not> includes_str s d \<Longrightarrow> greedy_until ok d s = None"
  by (induction s) auto

lemma greedy_until_last:
  assumes "d \<noteq> []" and "\<not> includes_str (tl (d @ post)) d"
  shows "greedy_until (\<lambda>c. True) d (mid @ d @ post) = Some (mid, post)"
proof (induction mid)
  case Nil
  from assms(1) obtain c cs where d: "d @ post = c # cs"
    by (cases d) auto
  with assms(2) have "greedy_until (\<lambda>c. True) d cs = None"
    by (simp add: greedy_until_none)
  moreover have "prefix d (c # cs)" "drop (length d) (c # cs) = post"
    using d [symmetric] by simp_all
  ultimately show ?case
    using d by simp
next
  case (Cons x mid)
  then show ?case by simp
qed

lemma ul_rule_span:
  assumes "\<not> includes_str (''/li>'' @ post) ''</li>''"
  shows "ul_rule (''<li>'' @ mid @ ''</li>'' @ post) =
           Some (''<ul>'' @ ''<li>'' @ mid @ ''</li>'' @ ''</ul>'', post)"
proof -
  have "greedy_until (\<lambda>c. True) ''</li>'' (mid @ ''</li>'' @ post) = Some (mid, post)"
    using assms by (intro greedy_until_last) simp_all
  then show ?thesis
    by (simp add: ul_rule_def)
qed

lemma ul_rule_skip:
  assumes "\<not> prefix ''<li>'' (x # pre @ ''<li'')"
  shows "ul_rule (x # pre @ ''<li>'' @ t) = None"
proof -
  have "prefix ''<li>'' ((x # pre @ ''<li'') @ (''>'' @ t)) \<longleftrightarrow>
        prefix ''<li>'' (x # pre @ ''<li'')"
    by (rule prefix_append_long) simp
  moreover have "(x # pre @ ''<li'') @ (''>'' @ t) = x # pre @ ''<li>'' @ t"
    by simp
  ultimately have "\<not> prefix ''<li>'' (x # pre @ ''<li>'' @ t)"
    using assms by metis
  then show ?thesis by (simp only: ul_rule_def if_False)
qed

lemma replace_first_here:
  "s \<noteq> [] \<Longrightarrow> m s = Some (out, rest) \<Longrightarrow> replace_first m s = out @ rest"
  by (cases s) simp_all

lemma replace_first_skip:
  "m (x # s) = None \<Longrightarrow> replace_first m (x # s) = x # replace_first m s"
  by simp

lemma replace_first_ul:
  assumes "\<not> includes_str (pre @ ''<li'') ''<li>''"
    and "\<not> includes_str (''/li>'' @ post) ''</li>''"
  shows "replace_first ul_rule (pre @ ''<li>'' @ mid @ ''</li>'' @ post) =
           pre @ ''<ul>'' @ ''<li>'' @ mid @ ''</li>'' @ ''</ul>'' @ post"
  using assms(1)
proof (induction pre)
  case Nil
  have "replace_first ul_rule (''<li>'' @ mid @ ''</li>'' @ post) =
          (''<ul>'' @ ''<li>'' @ mid @ ''</li>'' @ ''</ul>'') @ post"
    using ul_rule_span [OF assms(2), of mid] by (intro replace_first_here) simp_all
  then show ?case by simp
next
  case (Cons x pre)
  then have here: "\<not> prefix ''<li>'' (x # pre @ ''<li'')"
    and later: "\<not> includes_str (pre @ ''<li'') ''<li>''"
    by simp_all
  from here have "ul_rule (x # pre @ ''<li>'' @ mid @ ''</li>'' @ post) = None"
    by (rule ul_rule_skip)
  then have "replace_first ul_rule (x # pre @ ''<li>'' @ mid @ ''</li>'' @ post) =
      x # replace_first ul_rule (pre @ ''<li>'' @ mid @ ''</li>'' @ post)"
    by (rule replace_first_skip)
  with Cons.IH [OF later] show ?case by simp
qed

subsection \<open>Lines without other markup\<close>

lemma li_line_no_prefix: "\<not> prefix marker l \<Longrightarrow> li_line marker opn cls l = l"
  by (simp add: li_line_def)

lemma map_lines_no_prefix:
  "list_all (\<lambda>(l, t). \<not> prefix marker l) segs \<Longrightarrow> map_lines (li_line marker opn cls) segs = segs"
  by (induction segs) (auto simp: map_lines_def li_line_no_prefix)

lemma replace_lines_unmarked:
  assumes "marker \<noteq> []" and "one_line marker" and "lines_ok segs lst"
    and "list_all (\<lambda>(l, t). \<not> prefix marker l) segs" and "\<not> prefix marker lst"
  shows "replace_lines (line_rule marker opn cls) None (text_of segs lst) = text_of segs lst"
proof -
  have "at_line_start None" by (simp add: at_line_start_def)
  with assms(1-3) have "replace_lines (line_rule marker opn cls) None (text_of segs lst) =
      text_of (map_lines (li_line marker opn cls) segs) (li_line marker opn cls lst)"
    by (rule replace_lines_text)
  with assms(4,5) show ?thesis by (simp add: map_lines_no_prefix li_line_no_prefix)
qed

lemma headers_unmarked:
  assumes "lines_ok segs lst" and "list_all (\<lambda>(l, t). no_header l) segs" and "no_header lst"
  shows "headers (text_of segs lst) = text_of segs lst"
proof -
  have m: "one_line ''# ''" "one_line ''## ''" "one_line ''### ''"
    by (simp_all add: one_line_def is_line_terminator_def nl_def cr_def)
  have 1: "list_all (\<lambda>(l, t). \<not> prefix ''# '' l) segs"
    and 2: "list_all (\<lambda>(l, t). \<not> prefix ''## '' l) segs"
    and 3: "list_all (\<lambda>(l, t). \<not> prefix ''### '' l) segs"
    using assms(2) by (induction segs) (auto simp: no_header_def)
  have 4: "\<not> prefix ''# '' lst" "\<not> prefix ''## '' lst" "\<not> prefix ''### '' lst"
    using assms(3) by (simp_all add: no_header_def)
  show ?thesis
    using assms(1) m 1 2 3 4 by (simp add: headers_def replace_lines_unmarked)
qed

lemma replace_global_no_match:
  assumes "\<And>t. \<not> prefix p t \<Longrightarrow> m t = None"
  shows "\<not> includes_str s p \<Longrightarrow> replace_global m s = s"
  by (induction s) (simp_all add: assms)

lemma includes_str_char: "x \<notin> set s \<Longrightarrow> \<not> includes_str s (x # p)"
  by (induction s) auto

lemma bold_plain: "\<not> includes_str s ''**'' \<Longrightarrow> bold s = s"
  unfolding bold_def by (rule replace_global_no_match) (simp_all add: bold_rule_def)

lemma code_blocks_plain: "CHR 0x60 \<notin> set s \<Longrightarrow> code_blocks s = s"
  unfolding code_blocks_def
proof (rule replace_global_no_match)
  show "\<And>t. \<not> prefix ''```'' t \<Longrightarrow> code_block_rule t = None"
    by (simp add: code_block_rule_def)
  show "CHR 0x60 \<notin> set s \<Longrightarrow> \<not> includes_str s ''```''"
    by (rule includes_str_char)
qed

lemma inline_code_plain: "CHR 0x60 \<notin> set s \<Longrightarrow> inline_code s = s"
  unfolding inline_code_def
proof (rule replace_global_no_match)
  show "\<And>t. \<not> prefix [CHR 0x60] t \<Longrightarrow> inline_code_rule t = None"
    by (auto simp: inline_code_rule_def split: list.splits)
  show "CHR 0x60 \<notin> set s \<Longrightarrow> \<not> includes_str s [CHR 0x60]"
    by (rule includes_str_char)
qed

lemma parseMarkdown_plain_text:
  assumes "lines_ok segs lst" and "plain_lines segs lst"
  shows "parseMarkdown (text_of segs lst) = paragraphs (lists (text_of segs lst))"
proof -
  from assms(2) have h: "list_all (\<lambda>(l, t). no_header l) segs" "no_header lst"
    and b: "\<not> includes_str (text_of segs lst) ''**''"
    and c: "CHR 0x60 \<notin> set (text_of segs lst)"
    by (simp_all add: plain_lines_def)
  show ?thesis
    using headers_unmarked [OF assms(1) h] bold_plain [OF b] code_blocks_plain [OF c]
      inline_code_plain [OF c]
    by (simp add: parseMarkdown_def)
qed

text \<open>
  C8, as the claim states it, fails. The input below has two runs of list items with a
  paragraph between them; the output has one \<^verbatim>\<open>ul\<close> element, opened before the first
  item and closed after the last, and the paragraph lies inside it.
\<close>

theorem lists_two_runs_counterexample:
  "parseMarkdown (''* a'' @ [nl] @ ''* b'' @ [nl, nl] @ ''text'' @ [nl, nl] @ ''- c'') =
     ''<ul><li>a</li>'' @ [nl] @ ''<li>b</li>'' @ [nl] @ ''<p>text</p>'' @ [nl] @
     ''<li>c</li></ul>'' \<and>
   occurrences ''<ul>''
     (parseMarkdown (''* a'' @ [nl] @ ''* b'' @ [nl, nl] @ ''text'' @ [nl, nl] @ ''- c'')) = [0]"
  by code_simp

text \<open>
  C8, amended. In the text that reaches the list rules, every line that begins with
  \<^verbatim>\<open>* \<close> or \<^verbatim>\<open>- \<close> is wrapped on its own as an \<^verbatim>\<open>li\<close> element, whatever line
  terminator ends it. Then one \<^verbatim>\<open>ul\<close> element is wrapped around the span from the
  first \<^verbatim>\<open><li>\<close> to the last \<^verbatim>\<open></li>\<close> of the whole text: with two or more runs of
  items, all the runs and the text between them are enclosed in that single element.
  Where the lines hold no markup of the earlier rules, this text is what parseMarkdown
  hands to its paragraph rule. This holds of the text of any lines \<open>segs\<close> and last line
  \<open>lst\<close>, and every text \<open>s\<close> is the text of its lines \<open>split_lines s\<close>.
\<close>

theorem lists_single_container:
  assumes "lines_ok segs lst"
    and "text_of (map_lines li_item segs) (li_item lst) = pre @ ''<li>'' @ mid @ ''</li>'' @ post"
    and "\<not> includes_str (pre @ ''<li'') ''<li>''"
    and "\<not> includes_str (''/li>'' @ post) ''</li>''"
  shows "list_items (text_of segs lst) = text_of (map_lines li_item segs) (li_item lst) \<and>
         lists (text_of segs lst) = pre @ ''<ul>'' @ ''<li>'' @ mid @ ''</li>'' @ ''</ul>'' @ post \<and>
         (plain_lines segs lst \<longrightarrow>
            parseMarkdown (text_of segs lst) =
              paragraphs (pre @ ''<ul>'' @ ''<li>'' @ mid @ ''</li>'' @ ''</ul>'' @ post)) \<and>
         lines_ok (fst (split_lines s)) (snd (split_lines s)) \<and>
         text_of (fst (split_lines s)) (snd (split_lines s)) = s \<and>
         list_items s =
           text_of (map_lines li_item (fst (split_lines s))) (li_item (snd (split_lines s)))"
proof -
  have items: "list_items (text_of segs lst) = text_of (map_lines li_item segs) (li_item lst)"
    using assms(1) by (rule list_items_text)
  have "replace_first ul_rule (pre @ ''<li>'' @ mid @ ''</li>'' @ post) =
          pre @ ''<ul>'' @ ''<li>'' @ mid @ ''</li>'' @ ''</ul>'' @ post"
    using assms(3,4) by (rule replace_first_ul)
  with items assms(2)
  have ul: "lists (text_of segs lst) =
      pre @ ''<ul>'' @ ''<li>'' @ mid @ ''</li>'' @ ''</ul>'' @ post"
    by (simp only: lists_def)
  have md: "parseMarkdown (text_of segs lst) =
          paragraphs (pre @ ''<ul>'' @ ''<li>'' @ mid @ ''</li>'' @ ''</ul>'' @ post)"
    if "plain_lines segs lst"
    using parseMarkdown_plain_text [OF assms(1) that] by (simp only: ul)
  have ok: "lines_ok (fst (split_lines s)) (snd (split_lines s))"
    and tx: "text_of (fst (split_lines s)) (snd (split_lines s)) = s"
    using split_lines_complete [of s] by blast+
  have "list_items (text_of (fst (split_lines s)) (snd (split_lines s))) =
          text_of (map_lines li_item (fst (split_lines s))) (li_item (snd (split_lines s)))"
    using ok by (rule list_items_text)
  then have every: "list_items s =
          text_of (map_lines li_item (fst (split_lines s))) (li_item (snd (split_lines s)))"
    by (simp only: tx)
  from items ul md ok tx every show ?thesis by blast
qed

text \<open>
  The instance: an item that a carriage return and a line feed end, a line of text, and
  an item as the last line.
\<close>

theorem lists_single_container_witness:
  "split_lines (''* a'' @ [cr, nl] @ ''text'' @ [nl] @ ''- b'') =
     ([(''* a'', cr), ([], nl), (''text'', nl)], ''- b'') \<and>
   lists (''* a'' @ [cr, nl] @ ''text'' @ [nl] @ ''- b'') =
     ''<ul><li>a</li>'' @ [cr, nl] @ ''text'' @ [nl] @ ''<li>b</li></ul>'' \<and>
   parseMarkdown (''* a'' @ [cr, nl] @ ''text'' @ [nl] @ ''- b'') =
     ''<ul><li>a</li>'' @ [cr, nl] @ ''text'' @ [nl] @ ''<li>b</li></ul>''"
proof -
  have sp: "split_lines (''* a'' @ [cr, nl] @ ''text'' @ [nl] @ ''- b'') =
     ([(''* a'', cr), ([], nl), (''text'', nl)], ''- b'')"
    by (simp add: is_line_terminator_def nl_def cr_def)
  have ok: "lines_ok [(''* a'', cr), ([], nl), (''text'', nl)] ''- b''"
    by (simp add: one_line_def is_line_terminator_def nl_def cr_def)
  have sh: "text_of (map_lines li_item [(''* a'', cr), ([], nl), (''text'', nl)]) (li_item ''- b'') =
        [] @ ''<li>'' @ (''a</li>'' @ [cr, nl] @ ''text'' @ [nl] @ ''<li>b'') @ ''</li>'' @ []"
    by (simp add: map_lines_def li_item_def)
  have fst: "\<not> includes_str ([] @ ''<li'') ''<li>''" by simp
  have lst: "\<not> includes_str (''/li>'' @ []) ''</li>''" by simp
  have pl: "plain_lines [(''* a'', cr), ([], nl), (''text'', nl)] ''- b''"
    by (simp add: plain_lines_def no_header_def nl_def cr_def)
  note th = lists_single_container [OF ok sh fst lst]
  from th have l: "lists (text_of [(''* a'', cr), ([], nl), (''text'', nl)] ''- b'') =
     [] @ ''<ul>'' @ ''<li>'' @ (''a</li>'' @ [cr, nl] @ ''text'' @ [nl] @ ''<li>b'') @ ''</li>'' @
     ''</ul>'' @ []"
    by blast
  from th pl have p: "parseMarkdown (text_of [(''* a'', cr), ([], nl), (''text'', nl)] ''- b'') =
        paragraphs ([] @ ''<ul>'' @ ''<li>'' @ (''a</li>'' @ [cr, nl] @ ''text'' @ [nl] @ ''<li>b'') @
          ''</li>'' @ ''</ul>'' @ [])"
    by blast
  have "paragraphs ([] @ ''<ul>'' @ ''<li>'' @ (''a</li>'' @ [cr, nl] @ ''text'' @ [nl] @ ''<li>b'') @
          ''</li>'' @ ''</ul>'' @ []) =
        ''<ul><li>a</li>'' @ [cr, nl] @ ''text'' @ [nl] @ ''<li>b</li></ul>''"
    by (simp add: paragraphs_def wrap_paragraph_def nl_def cr_def)
  with p have "parseMarkdown (text_of [(''* a'', cr), ([], nl), (''text'', nl)] ''- b'') =
        ''<ul><li>a</li>'' @ [cr, nl] @ ''text'' @ [nl] @ ''<li>b</li></ul>''"
    by (simp only:)
  with l sp show ?thesis by simp
qed

section \<open>Markdown renderer: code\<close>

lemma inline_code_rule_span:
  assumes "cap \<noteq> []" and "CHR 0x60 \<notin> set cap"
  shows "inline_code_rule (CHR 0x60 # cap @ CHR 0x60 # rest) =
           Some (''<code>'' @ cap @ ''</code>'', rest)"
proof -
  have "takeWhile (\<lambda>x. x \<noteq> CHR 0x60) (cap @ CHR 0x60 # rest) = cap"
    using assms(2) by (rule takeWhile_until)
  moreover have "dropWhile (\<lambda>x. x \<noteq> CHR 0x60) (cap @ CHR 0x60 # rest) = CHR 0x60 # rest"
    using assms(2) by (rule dropWhile_until)
  ultimately show ?thesis
    using assms(1) by (simp add: inline_code_rule_def Let_def)
qed

lemma inline_code_verbatim:
  assumes "cap \<noteq> []" and "CHR 0x60 \<notin> set cap"
  shows "inline_code (CHR 0x60 # cap @ [CHR 0x60]) = ''<code>'' @ cap @ ''</code>''"
  using inline_code_rule_span [OF assms, of "[]"]
  by (simp add: inline_code_def)

lemma lazy_until_fence:
  "CHR 0x60 \<notin> set body \<Longrightarrow>
   lazy_until (\<lambda>c. True) ''```'' (body @ ''```'') = Some (body, [])"
  by (induction body) auto

lemma remove_fence_tail:
  "CHR 0x60 \<notin> set body \<Longrightarrow> replace_global fence_literal (body @ ''```'') = body"
  by (induction body) (auto simp: fence_literal_def)

lemma remove_fences:
  "CHR 0x60 \<notin> set body \<Longrightarrow>
   replace_global fence_literal (''```'' @ body @ ''```'') = body"
  using remove_fence_tail [of body] by (simp add: fence_literal_def)

lemma code_blocks_escaped:
  assumes "CHR 0x60 \<notin> set body"
  shows "code_blocks (''```'' @ body @ ''```'') =
           ''<pre><code>'' @ escapeHtml (trim body) @ ''</code></pre>''"
proof -
  have "code_block_rule (''```'' @ body @ ''```'') =
          Some (''<pre><code>'' @ escapeHtml (trim body) @ ''</code></pre>'', [])"
    using lazy_until_fence [OF assms] remove_fences [OF assms]
    by (simp add: code_block_rule_def Let_def)
  then show ?thesis
    by (simp add: code_blocks_def)
qed

text \<open>
  C10. Only fenced code blocks pass their content through escapeHtml. The content of an
  inline code span is put into the \<^verbatim>\<open>code\<close> element as it is: a span whose content
  holds \<open><\<close> and \<open>&\<close> comes out of parseMarkdown with both unescaped, and the same
  content in a fenced block comes out escaped.
\<close>

theorem inline_code_not_escaped:
  assumes "cap \<noteq> []" and "CHR 0x60 \<notin> set cap"
  shows "inline_code (CHR 0x60 # cap @ [CHR 0x60]) = ''<code>'' @ cap @ ''</code>'' \<and>
         code_blocks (''```'' @ cap @ ''```'') =
           ''<pre><code>'' @ escapeHtml (trim cap) @ ''</code></pre>'' \<and>
         parseMarkdown ''`a<b&c`'' = ''<code>a<b&c</code>'' \<and>
         parseMarkdown ''```a<b&c```'' = ''<pre><code>a&lt;b&amp;c</code></pre>''"
proof -
  have 1: "parseMarkdown ''`a<b&c`'' = ''<code>a<b&c</code>''"
    by code_simp
  have 2: "parseMarkdown ''```a<b&c```'' = ''<pre><code>a&lt;b&amp;c</code></pre>''"
    by code_simp
  from inline_code_verbatim [OF assms] code_blocks_escaped [OF assms(2)] 1 2
  show ?thesis by blast
qed

text \<open>The instance: the content \<open>a<b&c\<close>.\<close>

theorem inline_code_not_escaped_witness:
  "inline_code (CHR 0x60 # ''a<b&c'' @ [CHR 0x60]) = ''<code>'' @ ''a<b&c'' @ ''</code>'' \<and>
   code_blocks (''```'' @ ''a<b&c'' @ ''```'') =
     ''<pre><code>'' @ escapeHtml (trim ''a<b&c'') @ ''</code></pre>'' \<and>
   parseMarkdown ''`a<b&c`'' = ''<code>a<b&c</code>'' \<and>
   parseMarkdown ''```a<b&c```'' = ''<pre><code>a&lt;b&amp;c</code></pre>''"
proof -
  have ne: "''a<b&c'' \<noteq> []" by simp
  have nb: "CHR 0x60 \<notin> set ''a<b&c''" by simp
  show ?thesis by (rule inline_code_not_escaped [OF ne nb])
qed

end
